theory Spec2Isabelle
  imports Main "HOL-Library.Word" "HOL-Library.List_Lexorder"
begin

unbundle bit_operations_syntax

section \<open>Version cells: the header word\<close>

text \<open>
  The C++ types \<^verbatim>\<open>version_t\<close> and \<^verbatim>\<open>tid_t\<close> are \<^verbatim>\<open>uint64_t\<close>. The header
  word \<^verbatim>\<open>hdr\<close> of a \<^verbatim>\<open>logical_node\<close> packs
  \<^verbatim>\<open>[ locked | deleted | enqueued | latest | version ]\<close> at bits
  \<^verbatim>\<open>[ 0..1 | 1..2 | 2..3 | 3..4 | 4..64 ]\<close>.
\<close>

type_synonym version_t = "64 word"
type_synonym tid_t = "64 word"
type_synonym size_type = "64 word"
type_synonym byte = "8 word"

definition HDR_LOCKED_MASK :: version_t where
  "HDR_LOCKED_MASK = 0x1"

definition HDR_DELETING_SHIFT :: nat where
  "HDR_DELETING_SHIFT = 1"

definition HDR_DELETING_MASK :: version_t where
  "HDR_DELETING_MASK = push_bit HDR_DELETING_SHIFT 0x1"

definition HDR_ENQUEUED_SHIFT :: nat where
  "HDR_ENQUEUED_SHIFT = 2"

definition HDR_ENQUEUED_MASK :: version_t where
  "HDR_ENQUEUED_MASK = push_bit HDR_ENQUEUED_SHIFT 0x1"

definition HDR_LATEST_SHIFT :: nat where
  "HDR_LATEST_SHIFT = 3"

definition HDR_LATEST_MASK :: version_t where
  "HDR_LATEST_MASK = push_bit HDR_LATEST_SHIFT 0x1"

definition HDR_VERSION_SHIFT :: nat where
  "HDR_VERSION_SHIFT = 4"

definition HDR_VERSION_MASK :: version_t where
  "HDR_VERSION_MASK = push_bit HDR_VERSION_SHIFT (- 1)"

definition IsLocked :: "version_t \<Rightarrow> bool" where
  "IsLocked v = (v AND HDR_LOCKED_MASK \<noteq> 0)"

definition IsDeleting :: "version_t \<Rightarrow> bool" where
  "IsDeleting v = (v AND HDR_DELETING_MASK \<noteq> 0)"

definition IsEnqueued :: "version_t \<Rightarrow> bool" where
  "IsEnqueued v = (v AND HDR_ENQUEUED_MASK \<noteq> 0)"

definition IsLatest :: "version_t \<Rightarrow> bool" where
  "IsLatest v = (v AND HDR_LATEST_MASK \<noteq> 0)"

definition Version :: "version_t \<Rightarrow> version_t" where
  "Version v = drop_bit HDR_VERSION_SHIFT (v AND HDR_VERSION_MASK)"

text \<open>
  \<^verbatim>\<open>lock()\<close> spins while the header read is locked or the compare-and-swap fails. In
  a single thread of execution nobody else writes the header: the compare-and-swap
  against the value just read succeeds, and a header that is locked stays locked, so
  the loop never ends. Not returning is the value \<open>None\<close>.
\<close>

partial_function (option) lock :: "version_t \<Rightarrow> version_t option" where
  "lock hdr = (let v = hdr in
     if IsLocked v then lock hdr else Some (v OR HDR_LOCKED_MASK))"

text \<open>
  \<^verbatim>\<open>unlock()\<close>, on the header word. The \<^verbatim>\<open>INVARIANT\<close> lines are assertions of the
  debug build; they are the preconditions collected in \<open>hdr_op_pre\<close> below.
\<close>

definition unlock :: "version_t \<Rightarrow> version_t" where
  "unlock hdr = (let v = hdr;
       n = Version v;
       v = v AND NOT HDR_VERSION_MASK;
       v = v OR (push_bit HDR_VERSION_SHIFT (n + 1) AND HDR_VERSION_MASK);
       v = v AND NOT HDR_LOCKED_MASK
     in v)"

definition mark_deleting :: "version_t \<Rightarrow> version_t" where
  "mark_deleting hdr = hdr OR HDR_DELETING_MASK"

definition set_enqueued :: "bool \<Rightarrow> version_t \<Rightarrow> version_t" where
  "set_enqueued enqueued hdr =
     (if enqueued then hdr OR HDR_ENQUEUED_MASK else hdr AND NOT HDR_ENQUEUED_MASK)"

definition set_latest :: "bool \<Rightarrow> version_t \<Rightarrow> version_t" where
  "set_latest latest hdr =
     (if latest then hdr OR HDR_LATEST_MASK else hdr AND NOT HDR_LATEST_MASK)"

text \<open>
  \<^verbatim>\<open>stable_version()\<close> re-reads the header until it is unlocked; alone in its thread
  it returns the header at once when unlocked and never otherwise.
\<close>

partial_function (option) stable_version :: "version_t \<Rightarrow> version_t option" where
  "stable_version hdr = (let v = hdr in
     if IsLocked v then stable_version hdr else Some v)"

text \<open>
  \<^verbatim>\<open>try_stable_version(v, spins)\<close>: the bounded variant. It returns the last header
  read and whether that header was unlocked.
\<close>

fun try_stable_version_loop :: "version_t \<Rightarrow> version_t \<Rightarrow> nat \<Rightarrow> version_t" where
  "try_stable_version_loop hdr v 0 = v"
| "try_stable_version_loop hdr v (Suc spins) =
     (if IsLocked v then try_stable_version_loop hdr hdr spins else v)"

definition try_stable_version :: "version_t \<Rightarrow> nat \<Rightarrow> bool \<times> version_t" where
  "try_stable_version hdr spins =
     (let v = try_stable_version_loop hdr hdr spins in (\<not> IsLocked v, v))"

definition check_version :: "version_t \<Rightarrow> version_t \<Rightarrow> bool" where
  "check_version hdr version = (hdr = version)"

text \<open>
  The header operations as commands, each guarded by the assertions the source states
  for it: \<^verbatim>\<open>unlock\<close> asserts the lock, \<^verbatim>\<open>mark_deleting\<close> asserts locked, not
  enqueued and not deleting, \<^verbatim>\<open>set_enqueued\<close> asserts locked and not deleting,
  \<^verbatim>\<open>set_latest\<close> asserts locked. \<^verbatim>\<open>lock\<close> has no assertion; on a locked header it
  does not return. A violated assertion or a call that does not return is \<open>None\<close>.
\<close>

datatype hdr_op = Lock | Unlock | MarkDeleting | SetEnqueued bool | SetLatest bool

fun hdr_op_pre :: "hdr_op \<Rightarrow> version_t \<Rightarrow> bool" where
  "hdr_op_pre Lock h = True"
| "hdr_op_pre Unlock h = IsLocked h"
| "hdr_op_pre MarkDeleting h = (IsLocked h \<and> \<not> IsEnqueued h \<and> \<not> IsDeleting h)"
| "hdr_op_pre (SetEnqueued b) h = (IsLocked h \<and> \<not> IsDeleting h)"
| "hdr_op_pre (SetLatest b) h = IsLocked h"

fun hdr_op_apply :: "hdr_op \<Rightarrow> version_t \<Rightarrow> version_t option" where
  "hdr_op_apply Lock h = lock h"
| "hdr_op_apply Unlock h = Some (unlock h)"
| "hdr_op_apply MarkDeleting h = Some (mark_deleting h)"
| "hdr_op_apply (SetEnqueued b) h = Some (set_enqueued b h)"
| "hdr_op_apply (SetLatest b) h = Some (set_latest b h)"

definition hdr_step :: "hdr_op \<Rightarrow> version_t \<Rightarrow> version_t option" where
  "hdr_step op h = (if hdr_op_pre op h then hdr_op_apply op h else None)"

fun hdr_run :: "hdr_op list \<Rightarrow> version_t \<Rightarrow> version_t option" where
  "hdr_run [] h = Some h"
| "hdr_run (op # ops) h = (case hdr_step op h of None \<Rightarrow> None | Some h' \<Rightarrow> hdr_run ops h')"

section \<open>Version cells and chains\<close>

text \<open>
  \<^verbatim>\<open>struct logical_node\<close>: the header, the pointer to the next-older cell (null is
  \<open>None\<close>), the tid (\<^verbatim>\<open>version\<close>), \<^verbatim>\<open>size\<close>, \<^verbatim>\<open>alloc_size\<close> (both
  \<^verbatim>\<open>uint32_t\<close>) and the bytes of the buffer \<^verbatim>\<open>value_start\<close>. The fields
  \<^verbatim>\<open>next\<close> and \<^verbatim>\<open>size\<close> are named \<open>next_ptr\<close> and \<open>size_fld\<close> here. A chain is
  finite and acyclic by construction.
\<close>

datatype logical_node = logical_node
  (hdr: version_t)
  (next_ptr: "logical_node option")
  (version: tid_t)
  (size_fld: "32 word")
  (alloc_size: "32 word")
  (value_start: "byte list")

definition MIN_TID :: tid_t where
  "MIN_TID = 0"

definition MAX_TID :: tid_t where
  "MAX_TID = - 1"

text \<open>
  \<^verbatim>\<open>memcpy(dst, src, n)\<close> on buffers as byte lists: the first \<open>n\<close> bytes of the
  destination are replaced by the first \<open>n\<close> bytes of the source. The source and the
  destination hold at least \<open>n\<close> bytes in every call the program makes.
\<close>

definition memcpy :: "byte list \<Rightarrow> byte list \<Rightarrow> nat \<Rightarrow> byte list" where
  "memcpy dst src n = take n src @ drop n dst"

text \<open>
  The first constructor: a fresh cell is the latest one, holds the absent record
  (\<^verbatim>\<open>size = 0\<close>) at \<^verbatim>\<open>MIN_TID\<close>. The bytes of a freshly allocated buffer are
  indeterminate in C (whatever \<^verbatim>\<open>malloc\<close> returned); the model fixes them
  to 0. Only bytes past the record are concerned: the bytes \<open>[0..size)\<close> that a read
  returns are always written before.
\<close>

definition logical_node_first :: "size_type \<Rightarrow> logical_node" where
  "logical_node_first alloc_sz =
     logical_node HDR_LATEST_MASK None MIN_TID 0 (ucast alloc_sz)
       (replicate (unat alloc_sz) 0)"

text \<open>
  The second constructor:
  \<^verbatim>\<open>logical_node(version, r, size, alloc_size, next, set_latest)\<close>, which copies
  \<^verbatim>\<open>size\<close> bytes from \<^verbatim>\<open>r\<close>. The sizes arrive as \<^verbatim>\<open>size_t\<close> and are stored in
  32-bit fields.
\<close>

definition logical_node_ctor ::
  "tid_t \<Rightarrow> byte list \<Rightarrow> size_type \<Rightarrow> size_type \<Rightarrow> logical_node option \<Rightarrow> bool \<Rightarrow> logical_node" where
  "logical_node_ctor ver r sz alloc_sz nxt set_lat =
     logical_node (if set_lat then HDR_LATEST_MASK else 0) nxt ver (ucast sz) (ucast alloc_sz)
       (memcpy (replicate (unat alloc_sz) 0) r (unat sz))"

text \<open>
  Modelled from the spec: \<^verbatim>\<open>util::round_up<size_t, 16>\<close> (util.h) is not among the
  sources; the capacity of a cell "is rounded up to 16 bytes". The struct is packed:
  \<^verbatim>\<open>sizeof(logical_node)\<close> is 8 + 8 + 8 + 4 + 4 bytes.
\<close>

definition round_up_16 :: "size_type \<Rightarrow> size_type" where
  "round_up_16 x = (x + 15) AND NOT 15"

definition sizeof_logical_node :: size_type where
  "sizeof_logical_node = 32"

definition alloc_first :: "size_type \<Rightarrow> logical_node" where
  "alloc_first alloc_sz =
     (let actual_alloc_sz = round_up_16 (sizeof_logical_node + alloc_sz)
      in logical_node_first (actual_alloc_sz - sizeof_logical_node))"

definition alloc ::
  "tid_t \<Rightarrow> byte list \<Rightarrow> size_type \<Rightarrow> logical_node option \<Rightarrow> bool \<Rightarrow> logical_node" where
  "alloc ver val sz nxt set_lat =
     (let alloc_sz = round_up_16 (sizeof_logical_node + sz)
      in logical_node_ctor ver val sz (alloc_sz - sizeof_logical_node) nxt set_lat)"

definition is_locked :: "logical_node \<Rightarrow> bool" where
  "is_locked n = IsLocked (hdr n)"

definition is_deleting :: "logical_node \<Rightarrow> bool" where
  "is_deleting n = IsDeleting (hdr n)"

definition is_enqueued :: "logical_node \<Rightarrow> bool" where
  "is_enqueued n = IsEnqueued (hdr n)"

definition is_latest :: "logical_node \<Rightarrow> bool" where
  "is_latest n = IsLatest (hdr n)"

definition is_not_behind :: "logical_node \<Rightarrow> tid_t \<Rightarrow> bool" where
  "is_not_behind n t = (version n \<le> t)"

text \<open>
  \<^verbatim>\<open>record_at(t, start_t, r, require_latest)\<close>. The reference parameters
  \<^verbatim>\<open>start_t\<close> and \<^verbatim>\<open>r\<close> are passed in and returned with the result. A call that
  does not return (the cell is locked and nobody unlocks it) is \<open>None\<close>. The header
  read by \<^verbatim>\<open>check_version\<close> is the one \<^verbatim>\<open>stable_version\<close> read, no other thread
  being there to change it; the \<^verbatim>\<open>goto retry\<close> would read that header again and
  again, which is \<open>None\<close> as well.
\<close>

function record_at ::
  "tid_t \<Rightarrow> tid_t \<Rightarrow> byte list \<Rightarrow> bool \<Rightarrow> logical_node \<Rightarrow> (bool \<times> tid_t \<times> byte list) option" where
  "record_at t start_t r require_latest n =
     (case stable_version (hdr n) of
        None \<Rightarrow> None
      | Some v \<Rightarrow>
          (let p = next_ptr n;
               found = is_not_behind n t
           in if found \<and> require_latest \<and> \<not> IsLatest v then Some (False, start_t, r)
              else
                (let start_t = (if found then version n else start_t);
                     r = (if found then take (unat (size_fld n)) (value_start n) else r)
                 in if \<not> check_version (hdr n) v then None
                    else if found then Some (True, start_t, r)
                    else (case p of
                            None \<Rightarrow> Some (False, start_t, r)
                          | Some p' \<Rightarrow> record_at t start_t r False p'))))"
  by pat_completeness auto
termination
  by (relation "measure (\<lambda>(t, start_t, r, require_latest, n). size n)")
     (auto, case_tac n, auto)

definition stable_read ::
  "tid_t \<Rightarrow> tid_t \<Rightarrow> byte list \<Rightarrow> logical_node \<Rightarrow> (bool \<times> tid_t \<times> byte list) option" where
  "stable_read t start_t r n = record_at t start_t r True n"

definition is_latest_version :: "logical_node \<Rightarrow> tid_t \<Rightarrow> bool" where
  "is_latest_version n t = (is_latest n \<and> is_not_behind n t)"

definition stable_is_latest_version :: "logical_node \<Rightarrow> tid_t \<Rightarrow> bool" where
  "stable_is_latest_version n t =
     (let (ok, v) = try_stable_version (hdr n) 16
      in if \<not> ok then False
         else (let ret = (IsLatest v \<and> is_not_behind n t)
               in if ret \<and> check_version (hdr n) v then True else False))"

text \<open>The cells of a chain, the entry cell first, then along \<^verbatim>\<open>next\<close>.\<close>

function chain_cells :: "logical_node \<Rightarrow> logical_node list" where
  "chain_cells n = n # (case next_ptr n of None \<Rightarrow> [] | Some p \<Rightarrow> chain_cells p)"
  by pat_completeness auto
termination
  by (relation "measure size") (auto, case_tac n, auto)

section \<open>Protocol 2: the layout of a TID\<close>

text \<open>
  \<^verbatim>\<open>CoreBits = NMAXCOREBITS\<close> and \<^verbatim>\<open>NMaxCores = NMAXCORES\<close> are macros of
  macros.h, which is not among the sources: they are parameters here, \<open>cb\<close> and
  \<open>nmax\<close>. A shift is \<open>push_bit\<close> or \<open>drop_bit\<close> on 64-bit words (C leaves a shift
  by 64 or more undefined; the theorems assume the shifts are below 64 where it
  matters).
\<close>

definition CoreMask :: "64 word \<Rightarrow> 64 word" where
  "CoreMask nmax = nmax - 1"

definition NumIdShift :: "nat \<Rightarrow> nat" where
  "NumIdShift cb = cb"

definition NumIdMask :: "nat \<Rightarrow> 64 word" where
  "NumIdMask cb = push_bit (NumIdShift cb) (push_bit 27 1 - 1)"

definition EpochShift :: "nat \<Rightarrow> nat" where
  "EpochShift cb = NumIdShift cb + 27"

definition EpochMask :: "nat \<Rightarrow> 64 word" where
  "EpochMask cb = push_bit (EpochShift cb) (- 1)"

definition CoreId :: "64 word \<Rightarrow> 64 word \<Rightarrow> 64 word" where
  "CoreId nmax v = v AND CoreMask nmax"

definition NumId :: "nat \<Rightarrow> 64 word \<Rightarrow> 64 word" where
  "NumId cb v = drop_bit (NumIdShift cb) (v AND NumIdMask cb)"

definition EpochId :: "nat \<Rightarrow> 64 word \<Rightarrow> 64 word" where
  "EpochId cb v = drop_bit (EpochShift cb) (v AND EpochMask cb)"

definition MakeTid :: "nat \<Rightarrow> 64 word \<Rightarrow> 64 word \<Rightarrow> 64 word \<Rightarrow> 64 word" where
  "MakeTid cb core_id num_id epoch_id =
     core_id OR push_bit (NumIdShift cb) num_id OR push_bit (EpochShift cb) epoch_id"

text \<open>The three \<^verbatim>\<open>_static_assert\<close> lines of \<^verbatim>\<open>MakeTid\<close>: the program compiles only
  with macros that satisfy them.\<close>

definition MakeTid_static_asserts :: "nat \<Rightarrow> 64 word \<Rightarrow> bool" where
  "MakeTid_static_asserts cb nmax =
     ((CoreMask nmax OR NumIdMask cb OR EpochMask cb) = - 1 \<and>
      (CoreMask nmax AND NumIdMask cb) = 0 \<and>
      (NumIdMask cb AND EpochMask cb) = 0)"

text \<open>
  The macros the program can be built with: the static assertions hold, every shift is
  below 64, and \<^verbatim>\<open>CoreBits\<close> is "sized so that \<open>2^CoreBits \<ge> NMaxCores\<close>".
\<close>

definition proto2_macros_ok :: "nat \<Rightarrow> 64 word \<Rightarrow> bool" where
  "proto2_macros_ok cb nmax =
     (MakeTid_static_asserts cb nmax \<and> EpochShift cb < 64 \<and> unat nmax \<le> 2 ^ cb)"

section \<open>The protocols' in-place-update predicate\<close>

text \<open>
  \<^verbatim>\<open>can_overwrite_record_tid\<close> is virtual: \<^verbatim>\<open>transaction\<close> defines it,
  \<^verbatim>\<open>transaction_proto2\<close> overrides it, \<^verbatim>\<open>transaction_proto1\<close> does not. The dynamic
  type of the transaction is a \<open>protocol\<close>. The two \<^verbatim>\<open>INVARIANT\<close> lines of the
  override are assertions of the debug build and do not change the value returned.
\<close>

datatype protocol = transaction_proto1 | transaction_proto2

definition transaction_can_overwrite_record_tid :: "tid_t \<Rightarrow> tid_t \<Rightarrow> bool" where
  "transaction_can_overwrite_record_tid prev cur = False"

definition transaction_proto2_can_overwrite_record_tid :: "nat \<Rightarrow> tid_t \<Rightarrow> tid_t \<Rightarrow> bool" where
  "transaction_proto2_can_overwrite_record_tid cb prev cur = (EpochId cb prev = EpochId cb cur)"

fun can_overwrite_record_tid :: "nat \<Rightarrow> protocol \<Rightarrow> tid_t \<Rightarrow> tid_t \<Rightarrow> bool" where
  "can_overwrite_record_tid cb transaction_proto1 prev cur =
     transaction_can_overwrite_record_tid prev cur"
| "can_overwrite_record_tid cb transaction_proto2 prev cur =
     transaction_proto2_can_overwrite_record_tid cb prev cur"

section \<open>Writing a record\<close>

text \<open>
  \<^verbatim>\<open>write_record_at(txn, t, r, sz)\<close>. The cell \<^verbatim>\<open>this\<close> is passed in and returned
  updated, after the pair the C++ returns. A replacement or spill cell that points to
  another cell holds that cell as it is at the time of the call. The two
  \<^verbatim>\<open>INVARIANT\<close> lines (locked, latest) are the caller's obligations.
\<close>

definition write_record_at ::
  "nat \<Rightarrow> protocol \<Rightarrow> tid_t \<Rightarrow> byte list \<Rightarrow> size_type \<Rightarrow> logical_node \<Rightarrow>
     (bool \<times> logical_node option) \<times> logical_node" where
  "write_record_at cb txn t r sz this =
     (if can_overwrite_record_tid cb txn (version this) t then
        (if sz \<le> ucast (alloc_size this) then
           ((False, None),
            logical_node (hdr this) (next_ptr this) t (ucast sz) (alloc_size this)
              (memcpy (value_start this) r (unat sz)))
         else
           (let this' = logical_node (set_latest False (hdr this)) (next_ptr this)
                          (version this) (size_fld this) (alloc_size this) (value_start this);
                rep = alloc t r sz (next_ptr this') True
            in ((False, Some rep), this')))
      else if sz \<le> ucast (alloc_size this) then
        (let spill = alloc (version this) (value_start this) sz (next_ptr this) False
         in ((True, None),
             logical_node (hdr this) (Some spill) t (ucast sz) (alloc_size this)
               (memcpy (value_start this) r (unat sz))))
      else
        (let this' = logical_node (set_latest False (hdr this)) (next_ptr this)
                       (version this) (size_fld this) (alloc_size this) (value_start this);
             rep = alloc t r sz (Some this') True
         in ((True, Some rep), this')))"

text \<open>
  The head of the chain after a write: "when a replacement is returned, the caller
  swaps the index slot to point at the replacement"; otherwise the cell written stays
  the head.
\<close>

definition new_head :: "(bool \<times> logical_node option) \<times> logical_node \<Rightarrow> logical_node" where
  "new_head res = (case snd (fst res) of None \<Rightarrow> snd res | Some rep \<Rightarrow> rep)"

section \<open>Key ranges\<close>

text \<open>
  A \<^verbatim>\<open>std::string\<close> is a list of bytes; its comparison operators are the
  lexicographic order on unsigned bytes, a proper prefix being smaller.

  Modelled from the spec: \<^verbatim>\<open>varkey\<close> (varkey.h) is not among the sources; a key is
  an ordered byte string, \<^verbatim>\<open>varkey(s)\<close> views the string \<open>s\<close> as a key and keys
  compare as their strings do.

  \<^verbatim>\<open>struct key_range_t\<close> is the range \<^verbatim>\<open>[a, b)\<close>; its fields \<^verbatim>\<open>a\<close>,
  \<^verbatim>\<open>has_b\<close>, \<^verbatim>\<open>b\<close> are named \<open>kr_a\<close>, \<open>kr_has_b\<close>, \<open>kr_b\<close> here.
\<close>

type_synonym varkey = "byte list"

definition varkey :: "byte list \<Rightarrow> varkey" where
  "varkey s = s"

record key_range_t =
  kr_a :: "byte list"
  kr_has_b :: bool
  kr_b :: "byte list"

definition is_empty_range :: "key_range_t \<Rightarrow> bool" where
  "is_empty_range this = (kr_has_b this \<and> kr_a this \<ge> kr_b this)"

definition contains :: "key_range_t \<Rightarrow> key_range_t \<Rightarrow> bool" where
  "contains this that =
     (if kr_a this > kr_a that then False
      else if \<not> kr_has_b this then True
      else if \<not> kr_has_b that then False
      else kr_b this \<ge> kr_b that)"

definition key_in_range :: "key_range_t \<Rightarrow> varkey \<Rightarrow> bool" where
  "key_in_range this k =
     (varkey (kr_a this) \<le> k \<and> (\<not> kr_has_b this \<or> k < varkey (kr_b this)))"

section \<open>The transaction object\<close>

datatype txn_state = TXN_EMBRYO | TXN_ACTIVE | TXN_COMMITED | TXN_ABRT

definition TXN_FLAG_LOW_LEVEL_SCAN :: "64 word" where
  "TXN_FLAG_LOW_LEVEL_SCAN = 0x1"

definition TXN_FLAG_READ_ONLY :: "64 word" where
  "TXN_FLAG_READ_ONLY = 0x2"

datatype abort_reason =
    ABORT_REASON_USER
  | ABORT_REASON_UNSTABLE_READ
  | ABORT_REASON_FUTURE_TID_READ
  | ABORT_REASON_NODE_SCAN_WRITE_VERSION_CHANGED
  | ABORT_REASON_NODE_SCAN_READ_VERSION_CHANGED
  | ABORT_REASON_WRITE_NODE_INTERFERENCE
  | ABORT_REASON_READ_NODE_INTEREFERENCE
  | ABORT_REASON_READ_ABSENCE_INTEREFERENCE

datatype exception = transaction_unusable_exception | transaction_read_only_exception

text \<open>
  \<^verbatim>\<open>struct read_record_t\<close> (fields \<^verbatim>\<open>t\<close>, \<^verbatim>\<open>r\<close>, \<^verbatim>\<open>ln\<close>, named \<open>rr_t\<close>,
  \<open>rr_r\<close>, \<open>rr_ln\<close> here) and \<^verbatim>\<open>struct txn_context\<close>: the read set, the write set
  (empty bytes mean delete), the absent ranges and the versions of the scanned nodes.
  An index (\<^verbatim>\<open>txn_btree *\<close>) and a B-tree node are known by a number.
\<close>

record read_record_t =
  rr_t :: tid_t
  rr_r :: "byte list"
  rr_ln :: "logical_node option"

record txn_context =
  read_set :: "byte list \<rightharpoonup> read_record_t"
  write_set :: "byte list \<rightharpoonup> byte list"
  absent_range_set :: "key_range_t list"
  node_scan :: "nat \<rightharpoonup> 64 word"

type_synonym txn_btree = nat

record transaction =
  state :: txn_state
  reason :: abort_reason
  flags :: "64 word"
  ctx_map :: "txn_btree \<rightharpoonup> txn_context"

text \<open>
  \<^verbatim>\<open>ensure_active()\<close>: the exception thrown, if any, and the transaction object
  afterwards.
\<close>

definition ensure_active :: "transaction \<Rightarrow> exception option \<times> transaction" where
  "ensure_active txn =
     (if state txn = TXN_EMBRYO then (None, txn\<lparr>state := TXN_ACTIVE\<rparr>)
      else if state txn \<noteq> TXN_ACTIVE then (Some transaction_unusable_exception, txn)
      else (None, txn))"

subsection \<open>The operations of a transaction\<close>

text \<open>
  Modelled from the spec: the operations of a transaction (get, put, delete and scan
  of txn.cc and txn_btree.cc) are not among the sources. Section 4.D: "Any operation
  attempted outside Embryo/Active signals unusable"; \<open>Get\<close> is "1. ensure_active.
  2. Local search ..." and \<open>Put\<close>/\<open>Delete\<close> are "ensure_active; fail if read-only flag
  set; buffer in write_set (empty bytes \<Rightarrow> delete)". An operation calls
  \<^verbatim>\<open>ensure_active\<close> first; the exception it throws leaves the operation at once;
  when it returns normally the operation goes on with its own work (any function
  \<open>work\<close> of the transaction, returning a result or an exception) on the transaction
  \<^verbatim>\<open>ensure_active\<close> left.
\<close>

definition txn_operation ::
  "(transaction \<Rightarrow> (exception + 'r) \<times> transaction) \<Rightarrow> transaction \<Rightarrow>
     (exception + 'r) \<times> transaction" where
  "txn_operation work txn =
     (case ensure_active txn of
        (Some e, txn') \<Rightarrow> (Inl e, txn')
      | (None, txn') \<Rightarrow> work txn')"

text \<open>
  Modelled from the spec: the context of an index, made empty at the first use, and
  the work of \<open>Put\<close> after \<^verbatim>\<open>ensure_active\<close>. "Writes attempted on a
  read-only-flagged transaction signal read-only-violation and transition to Aborted"
  (a user-initiated abort in the taxonomy of section 7); otherwise the value is
  buffered in the write set of the index. \<open>Delete\<close> is \<open>Put\<close> of empty bytes.
\<close>

definition empty_context :: txn_context where
  "empty_context =
     \<lparr>read_set = Map.empty, write_set = Map.empty, absent_range_set = [],
      node_scan = Map.empty\<rparr>"

definition context_of :: "transaction \<Rightarrow> txn_btree \<Rightarrow> txn_context" where
  "context_of txn btr = (case ctx_map txn btr of None \<Rightarrow> empty_context | Some ctx \<Rightarrow> ctx)"

definition put_work ::
  "txn_btree \<Rightarrow> byte list \<Rightarrow> byte list \<Rightarrow> transaction \<Rightarrow> (exception + unit) \<times> transaction" where
  "put_work btr k v txn =
     (if flags txn AND TXN_FLAG_READ_ONLY \<noteq> 0 then
        (Inl transaction_read_only_exception,
         txn\<lparr>state := TXN_ABRT, reason := ABORT_REASON_USER\<rparr>)
      else
        (Inr (),
         txn\<lparr>ctx_map := (ctx_map txn)(btr \<mapsto>
           (context_of txn btr)\<lparr>write_set := (write_set (context_of txn btr))(k \<mapsto> v)\<rparr>)\<rparr>))"

definition txn_put ::
  "txn_btree \<Rightarrow> byte list \<Rightarrow> byte list \<Rightarrow> transaction \<Rightarrow> (exception + unit) \<times> transaction" where
  "txn_put btr k v txn = txn_operation (put_work btr k v) txn"

definition txn_delete ::
  "txn_btree \<Rightarrow> byte list \<Rightarrow> transaction \<Rightarrow> (exception + unit) \<times> transaction" where
  "txn_delete btr k txn = txn_put btr k [] txn"

section \<open>Properties of the header word\<close>

declare record_at.simps [simp del]
declare chain_cells.simps [simp del]

lemma IsLocked_bit: "IsLocked v = bit v 0"
  by (simp add: IsLocked_def HDR_LOCKED_MASK_def and_one_eq bit_0 mod_2_eq_odd)

lemma and_single_bit_neq_0: "(v AND push_bit n (1::64 word) \<noteq> 0) = bit v n"
  by (simp only: push_bit_of_1 and_exp_eq_0_iff_not_bit) simp

lemma IsDeleting_bit: "IsDeleting v = bit v 1"
  unfolding IsDeleting_def HDR_DELETING_MASK_def and_single_bit_neq_0
  by (simp add: HDR_DELETING_SHIFT_def)

lemma IsEnqueued_bit: "IsEnqueued v = bit v 2"
  unfolding IsEnqueued_def HDR_ENQUEUED_MASK_def and_single_bit_neq_0
  by (simp add: HDR_ENQUEUED_SHIFT_def)

lemma IsLatest_bit: "IsLatest v = bit v 3"
  unfolding IsLatest_def HDR_LATEST_MASK_def and_single_bit_neq_0
  by (simp add: HDR_LATEST_SHIFT_def)

lemmas hdr_flag_bits = IsLocked_bit IsDeleting_bit IsEnqueued_bit IsLatest_bit

lemma Version_drop_bit: "Version v = drop_bit 4 v"
  by (auto simp add: Version_def HDR_VERSION_MASK_def HDR_VERSION_SHIFT_def bit_eq_iff bit_simps
      dest: bit_imp_le_length)

lemma bit_unlock:
  "bit (unlock v) k =
     (if k < 4 then (0 < k \<and> bit v k) else bit (push_bit 4 (drop_bit 4 v + 1) :: 64 word) k)"
  unfolding unlock_def Let_def Version_drop_bit HDR_VERSION_MASK_def HDR_VERSION_SHIFT_def
    HDR_LOCKED_MASK_def
  by (auto simp add: bit_simps dest: bit_imp_le_length)

lemma Version_unlock: "Version (unlock v) = take_bit 60 (Version v + 1)"
  unfolding Version_drop_bit
  by (rule bit_eqI) (auto simp add: bit_simps bit_unlock dest: bit_imp_le_length)

lemma unat_Version_less: "unat (Version v) < 2 ^ 60"
proof -
  have "take_bit 60 (Version v) = Version v"
    unfolding Version_drop_bit by (rule bit_eqI) (auto simp add: bit_simps dest: bit_imp_le_length)
  then have "unat (Version v) = unat (Version v) mod 2 ^ 60"
    by (metis unsigned_take_bit_eq take_bit_eq_mod)
  then show ?thesis
    by (metis mod_less_divisor zero_less_numeral zero_less_power)
qed

lemma unat_Version_unlock: "unat (Version (unlock v)) = (unat (Version v) + 1) mod 2 ^ 60"
proof -
  have "unat (Version (unlock v)) = unat (Version v + 1) mod 2 ^ 60"
    by (simp add: Version_unlock unsigned_take_bit_eq) (simp add: take_bit_eq_mod)
  also have "unat (Version v + 1) = unat (Version v) + 1"
    using unat_Version_less [of v] by (simp add: unat_word_ariths)
  finally show ?thesis .
qed

lemma lock_Some_unlocked: "lock h = Some y \<Longrightarrow> \<not> IsLocked h"
  by (rule lock.raw_induct [where P = "\<lambda>h y. \<not> IsLocked h"])
     (auto simp: Let_def split: if_splits)

lemma lock_unlocked: "\<not> IsLocked h \<Longrightarrow> lock h = Some (h OR HDR_LOCKED_MASK)"
  by (subst lock.simps) (simp add: Let_def)

lemma lock_locked: "IsLocked h \<Longrightarrow> lock h = None"
  using lock_Some_unlocked by (cases "lock h") auto

lemma lock_Some_iff: "lock h = Some y \<longleftrightarrow> \<not> IsLocked h \<and> y = h OR HDR_LOCKED_MASK"
  using lock_unlocked lock_locked by (cases "IsLocked h") auto

lemma bit_or_locked: "bit (h OR HDR_LOCKED_MASK) k = (k = 0 \<or> bit h k)"
  by (auto simp add: HDR_LOCKED_MASK_def bit_simps)

lemma bit_and_not_locked: "bit (h AND NOT HDR_LOCKED_MASK) k = (k \<noteq> 0 \<and> bit h k)"
  by (auto simp add: HDR_LOCKED_MASK_def bit_simps dest: bit_imp_le_length)

lemma stable_version_unlocked: "\<not> IsLocked h \<Longrightarrow> stable_version h = Some h"
  by (subst stable_version.simps) (simp add: Let_def)

lemma stable_version_Some_unlocked: "stable_version h = Some y \<Longrightarrow> \<not> IsLocked h"
  by (rule stable_version.raw_induct [where P = "\<lambda>h y. \<not> IsLocked h"])
     (auto simp: Let_def split: if_splits)

lemma stable_version_locked: "IsLocked h \<Longrightarrow> stable_version h = None"
  using stable_version_Some_unlocked by (cases "stable_version h") auto

lemma try_stable_version_loop_same: "try_stable_version_loop h h spins = h"
  by (induction spins) auto

lemma try_stable_version_eq: "try_stable_version h spins = (\<not> IsLocked h, h)"
  by (simp add: try_stable_version_def try_stable_version_loop_same)

lemma stable_is_latest_version_eq:
  "stable_is_latest_version n t = (\<not> is_locked n \<and> is_latest n \<and> version n \<le> t)"
  by (auto simp add: stable_is_latest_version_def try_stable_version_eq is_locked_def
      is_latest_def is_not_behind_def check_version_def)

subsection \<open>Unlocking\<close>

text \<open>
  Claim C6, as the code has it. For every header word \<open>v\<close> with the LOCKED bit set,
  \<^verbatim>\<open>unlock()\<close> produces a header with LOCKED clear, the DELETING, ENQUEUED and LATEST
  bits unchanged, and a VERSION field (bits 4..63) equal to the old VERSION plus one
  modulo \<open>2^60\<close>. So across a \<^verbatim>\<open>lock()\<close>/\<^verbatim>\<open>unlock()\<close> cycle (the lock taken on
  the same header with LOCKED clear, which leaves VERSION alone) VERSION grows by
  exactly one, except at \<open>2^60 - 1\<close>, where it wraps to 0.
\<close>

theorem unlock_header:
  assumes "IsLocked v"
  shows "\<not> IsLocked (unlock v) \<and>
         IsDeleting (unlock v) = IsDeleting v \<and>
         IsEnqueued (unlock v) = IsEnqueued v \<and>
         IsLatest (unlock v) = IsLatest v \<and>
         unat (Version (unlock v)) = (unat (Version v) + 1) mod 2 ^ 60 \<and>
         unat (Version (unlock v)) =
           (if unat (Version v) = 2 ^ 60 - 1 then 0 else unat (Version v) + 1) \<and>
         lock (v AND NOT HDR_LOCKED_MASK) = Some v \<and>
         Version (v AND NOT HDR_LOCKED_MASK) = Version v"
proof -
  have flags: "\<not> IsLocked (unlock v)" "IsDeleting (unlock v) = IsDeleting v"
    "IsEnqueued (unlock v) = IsEnqueued v" "IsLatest (unlock v) = IsLatest v"
    by (simp_all add: hdr_flag_bits bit_unlock)
  have inc: "unat (Version (unlock v)) = (unat (Version v) + 1) mod 2 ^ 60"
    by (rule unat_Version_unlock)
  have wrap: "unat (Version (unlock v)) =
      (if unat (Version v) = 2 ^ 60 - 1 then 0 else unat (Version v) + 1)"
    using unat_Version_less [of v] unfolding inc by auto
  have u: "\<not> IsLocked (v AND NOT HDR_LOCKED_MASK)"
    by (simp add: IsLocked_bit HDR_LOCKED_MASK_def bit_simps)
  have "(v AND NOT HDR_LOCKED_MASK) OR HDR_LOCKED_MASK = v"
    using assms unfolding IsLocked_bit HDR_LOCKED_MASK_def
    by (intro bit_eqI) (auto simp add: bit_simps)
  with u have cyc: "lock (v AND NOT HDR_LOCKED_MASK) = Some v"
    by (simp add: lock_unlocked)
  have same: "Version (v AND NOT HDR_LOCKED_MASK) = Version v"
    unfolding Version_drop_bit
    by (rule bit_eqI) (simp only: bit_drop_bit_eq, simp add: bit_and_not_locked)
  from flags inc wrap cyc same show ?thesis by simp
qed

text \<open>The theorem at the locked, latest header \<open>0x19\<close> (VERSION 1).\<close>

theorem unlock_header_witness:
  "IsLocked (0x19 :: version_t) \<and> \<not> IsLocked (unlock 0x19) \<and> IsLatest (unlock 0x19) \<and>
   unat (Version (unlock 0x19)) = 2 \<and> lock (0x18 :: version_t) = Some 0x19"
proof -
  have h: "IsLocked (0x19 :: version_t)"
    by (simp add: IsLocked_def HDR_LOCKED_MASK_def)
  have v: "unat (Version (0x19 :: version_t)) = 1"
    by (simp add: Version_drop_bit drop_bit_eq_div)
  have l: "IsLatest (0x19 :: version_t)"
    by (simp add: IsLatest_def HDR_LATEST_MASK_def HDR_LATEST_SHIFT_def)
  have a: "(0x19 :: version_t) AND NOT HDR_LOCKED_MASK = 0x18"
    by (simp add: HDR_LOCKED_MASK_def)
  from unlock_header [OF h] h v l a show ?thesis by simp
qed

text \<open>
  VERSION is not non-decreasing across every cycle: from the unlocked header with
  VERSION \<open>2^60 - 1\<close>, \<^verbatim>\<open>lock()\<close> then \<^verbatim>\<open>unlock()\<close> leaves VERSION 0. The source
  accepts this ("ABA problem happens after 2^61 concurrent modifications ... so we
  let it happen").
\<close>

theorem unlock_version_wraps:
  "lock (0xFFFFFFFFFFFFFFF0 :: version_t) = Some 0xFFFFFFFFFFFFFFF1 \<and>
   Version (0xFFFFFFFFFFFFFFF0 :: version_t) = 0xFFFFFFFFFFFFFFF \<and>
   Version (unlock 0xFFFFFFFFFFFFFFF1) = 0 \<and>
   \<not> Version (0xFFFFFFFFFFFFFFF0 :: version_t) \<le> Version (unlock 0xFFFFFFFFFFFFFFF1)"
proof -
  have u: "\<not> IsLocked (0xFFFFFFFFFFFFFFF0 :: version_t)"
    by (simp add: IsLocked_def HDR_LOCKED_MASK_def)
  have l: "lock (0xFFFFFFFFFFFFFFF0 :: version_t) = Some 0xFFFFFFFFFFFFFFF1"
    by (simp add: lock_unlocked [OF u] HDR_LOCKED_MASK_def)
  have v0: "Version (0xFFFFFFFFFFFFFFF0 :: version_t) = 0xFFFFFFFFFFFFFFF"
    by (simp add: Version_drop_bit drop_bit_eq_div)
  have v1: "Version (unlock 0xFFFFFFFFFFFFFFF1) = 0"
    by (simp only: Version_unlock) (simp add: Version_drop_bit drop_bit_eq_div take_bit_eq_mod)
  from l v0 v1 show ?thesis by simp
qed

subsection \<open>DELETING and ENQUEUED exclude each other\<close>

lemma hdr_step_keeps_exclusion:
  assumes "hdr_step op h = Some h'" and "\<not> (IsDeleting h \<and> IsEnqueued h)"
  shows "\<not> (IsDeleting h' \<and> IsEnqueued h')"
proof (cases op)
  case Lock
  with assms(1) have "h' = h OR HDR_LOCKED_MASK"
    by (simp add: hdr_step_def lock_Some_iff)
  with assms(2) show ?thesis
    by (simp add: IsDeleting_bit IsEnqueued_bit bit_or_locked)
next
  case Unlock
  with assms(1) have "h' = unlock h"
    by (simp add: hdr_step_def split: if_splits)
  with assms(2) show ?thesis
    by (simp add: IsDeleting_bit IsEnqueued_bit bit_unlock)
next
  case MarkDeleting
  with assms(1) have "h' = mark_deleting h" and "\<not> IsEnqueued h"
    by (auto simp add: hdr_step_def split: if_splits)
  then show ?thesis
    by (simp add: IsEnqueued_bit mark_deleting_def HDR_DELETING_MASK_def
        HDR_DELETING_SHIFT_def bit_simps)
next
  case (SetEnqueued b)
  with assms(1) have "h' = set_enqueued b h" and "\<not> IsDeleting h"
    by (auto simp add: hdr_step_def split: if_splits)
  then show ?thesis
    by (simp add: IsDeleting_bit set_enqueued_def HDR_ENQUEUED_MASK_def
        HDR_ENQUEUED_SHIFT_def bit_simps)
next
  case (SetLatest b)
  with assms(1) have "h' = set_latest b h"
    by (simp add: hdr_step_def split: if_splits)
  with assms(2) show ?thesis
    by (simp add: IsDeleting_bit IsEnqueued_bit set_latest_def HDR_LATEST_MASK_def
        HDR_LATEST_SHIFT_def bit_simps)
qed

lemma hdr_run_keeps_exclusion:
  "hdr_run ops h = Some h' \<Longrightarrow> \<not> (IsDeleting h \<and> IsEnqueued h) \<Longrightarrow>
   \<not> (IsDeleting h' \<and> IsEnqueued h')"
proof (induction ops arbitrary: h)
  case Nil
  then show ?case by simp
next
  case (Cons op ops)
  from Cons.prems(1) obtain h1 where s: "hdr_step op h = Some h1" and r: "hdr_run ops h1 = Some h'"
    by (auto split: option.splits)
  from hdr_step_keeps_exclusion [OF s Cons.prems(2)] Cons.IH [OF r] show ?case by blast
qed

lemma fresh_hdr_exclusion:
  "\<not> (IsDeleting (hdr (logical_node_first asz)) \<and> IsEnqueued (hdr (logical_node_first asz)))"
  "\<not> (IsDeleting (hdr (logical_node_ctor ver r sz asz nxt lat)) \<and>
      IsEnqueued (hdr (logical_node_ctor ver r sz asz nxt lat)))"
  by (simp_all add: logical_node_first_def logical_node_ctor_def IsDeleting_bit IsEnqueued_bit
      HDR_LATEST_MASK_def HDR_LATEST_SHIFT_def bit_simps)

text \<open>
  Claim C7. "Not DELETING or not ENQUEUED" is an invariant of the header: from the
  header of a freshly constructed cell (either constructor), every sequence of
  \<^verbatim>\<open>lock\<close>, \<^verbatim>\<open>unlock\<close>, \<^verbatim>\<open>mark_deleting\<close>, \<^verbatim>\<open>set_enqueued\<close> and
  \<^verbatim>\<open>set_latest\<close> calls that respects the assertions of each call ends in a header
  that does not have both DELETING and ENQUEUED set.
\<close>

theorem deleting_enqueued_exclusive:
  assumes "h0 = hdr (logical_node_first asz) \<or> h0 = hdr (logical_node_ctor ver r sz asz nxt lat)"
    and "hdr_run ops h0 = Some h"
  shows "\<not> (IsDeleting h \<and> IsEnqueued h)"
proof -
  from assms(1) have "\<not> (IsDeleting h0 \<and> IsEnqueued h0)"
    using fresh_hdr_exclusion by metis
  with assms(2) show ?thesis
    by (rule hdr_run_keeps_exclusion)
qed

text \<open>A run that locks a fresh cell, enqueues it, takes it off the queue, marks it as
  deleting and unlocks it.\<close>

lemma hdr_eval:
  "hdr (logical_node_first 16) = 8"
  "hdr_step Lock 8 = Some 9"
  "hdr_step (SetEnqueued True) 9 = Some 13"
  "hdr_step (SetLatest False) 13 = Some 5"
  "hdr_step (SetEnqueued False) 5 = Some 1"
  "hdr_step MarkDeleting 1 = Some 3"
  "hdr_step Unlock 3 = Some 18"
  by (simp_all add: logical_node_first_def HDR_LATEST_MASK_def HDR_LATEST_SHIFT_def
      hdr_step_def lock_Some_iff IsLocked_def IsDeleting_def IsEnqueued_def
      HDR_LOCKED_MASK_def HDR_DELETING_MASK_def HDR_DELETING_SHIFT_def
      HDR_ENQUEUED_MASK_def HDR_ENQUEUED_SHIFT_def set_enqueued_def set_latest_def
      mark_deleting_def unlock_def Version_drop_bit HDR_VERSION_MASK_def HDR_VERSION_SHIFT_def
      drop_bit_eq_div push_bit_eq_mult)

theorem deleting_enqueued_exclusive_witness:
  "hdr_run [Lock, SetEnqueued True, SetLatest False, SetEnqueued False, MarkDeleting, Unlock]
     (hdr (logical_node_first 16)) = Some 18 \<and>
   \<not> (IsDeleting (18 :: version_t) \<and> IsEnqueued (18 :: version_t)) \<and>
   IsDeleting (18 :: version_t)"
proof -
  have run: "hdr_run [Lock, SetEnqueued True, SetLatest False, SetEnqueued False, MarkDeleting, Unlock]
     (hdr (logical_node_first 16)) = Some 18"
    by (simp add: hdr_eval)
  have d: "IsDeleting (18 :: version_t)"
    by (simp add: IsDeleting_def HDR_DELETING_MASK_def HDR_DELETING_SHIFT_def)
  from deleting_enqueued_exclusive [OF disjI1 [OF refl] run] run d show ?thesis
    by simp
qed

section \<open>Properties of cells\<close>

subsection \<open>Read-set validation\<close>

text \<open>
  Claim C3, as the code has it. For every unlocked cell and every tid \<open>tid_read\<close>,
  \<^verbatim>\<open>stable_is_latest_version(tid_read)\<close> returns true exactly when the cell carries
  the LATEST bit and its tid is not behind \<open>tid_read\<close>, that is \<open>tid \<le> tid_read\<close>
  (\<^verbatim>\<open>is_not_behind\<close>), as \<^verbatim>\<open>is_latest_version\<close> does; in particular it returns
  false whenever the cell's tid is greater than \<open>tid_read\<close>.
\<close>

theorem stable_is_latest_version_not_behind:
  assumes "\<not> is_locked n"
  shows "stable_is_latest_version n tid_read = (is_latest n \<and> version n \<le> tid_read) \<and>
         stable_is_latest_version n tid_read = is_latest_version n tid_read \<and>
         (if tid_read < version n then \<not> stable_is_latest_version n tid_read else True)"
  using assms
  by (auto simp add: stable_is_latest_version_eq is_latest_version_def is_not_behind_def)

theorem stable_is_latest_version_not_behind_witness:
  "\<not> is_locked (logical_node 8 None 7 0 16 []) \<and>
   stable_is_latest_version (logical_node 8 None 7 0 16 []) 7 \<and>
   \<not> stable_is_latest_version (logical_node 8 None 7 0 16 []) 6"
proof -
  have u: "\<not> is_locked (logical_node 8 None 7 0 16 [])"
    by (simp add: is_locked_def IsLocked_def HDR_LOCKED_MASK_def)
  have l: "is_latest (logical_node 8 None 7 0 16 [])"
    by (simp add: is_latest_def IsLatest_def HDR_LATEST_MASK_def HDR_LATEST_SHIFT_def)
  from stable_is_latest_version_not_behind [OF u, of 7]
    stable_is_latest_version_not_behind [OF u, of 6] u l
  show ?thesis by simp
qed

text \<open>
  The test is not equality of tids: an unlocked latest cell at tid 1 passes the
  validation of a read at tid 2.
\<close>

theorem stable_is_latest_version_older_tid:
  "\<not> is_locked (logical_node 8 None 1 0 16 []) \<and>
   version (logical_node 8 None 1 0 16 []) \<noteq> 2 \<and>
   stable_is_latest_version (logical_node 8 None 1 0 16 []) 2"
  by (simp add: stable_is_latest_version_eq is_locked_def IsLocked_def HDR_LOCKED_MASK_def
      is_latest_def IsLatest_def HDR_LATEST_MASK_def HDR_LATEST_SHIFT_def)

section \<open>Properties of the transaction object\<close>

lemma ensure_active_by_state:
  "ensure_active txn =
     (case state txn of
        TXN_EMBRYO \<Rightarrow> (None, txn\<lparr>state := TXN_ACTIVE\<rparr>)
      | TXN_ACTIVE \<Rightarrow> (None, txn)
      | TXN_COMMITED \<Rightarrow> (Some transaction_unusable_exception, txn)
      | TXN_ABRT \<Rightarrow> (Some transaction_unusable_exception, txn))"
  by (cases "state txn") (simp_all add: ensure_active_def)

lemma txn_operation_by_state:
  "txn_operation work txn =
     (case state txn of
        TXN_EMBRYO \<Rightarrow> work (txn\<lparr>state := TXN_ACTIVE\<rparr>)
      | TXN_ACTIVE \<Rightarrow> work txn
      | TXN_COMMITED \<Rightarrow> (Inl transaction_unusable_exception, txn)
      | TXN_ABRT \<Rightarrow> (Inl transaction_unusable_exception, txn))"
  by (cases "state txn") (simp_all add: txn_operation_def ensure_active_by_state)

lemma put_work_not_embryo:
  "state txn \<noteq> TXN_EMBRYO \<Longrightarrow> state (snd (put_work btr k v txn)) \<noteq> TXN_EMBRYO"
  by (simp add: put_work_def)

lemma txn_put_not_embryo: "state (snd (txn_put btr k v txn)) \<noteq> TXN_EMBRYO"
  by (cases "state txn")
     (simp_all add: txn_put_def txn_operation_by_state put_work_not_embryo)

text \<open>
  Claim C9. \<^verbatim>\<open>ensure_active()\<close> takes the state Embryo to Active and returns
  normally; returns normally and leaves the transaction unchanged when the state is
  Active; and throws \<^verbatim>\<open>transaction_unusable_exception\<close>, leaving the transaction
  unchanged, when the state is Committed or Aborted. So every operation (whatever its
  own work is; put and delete among them) attempted on a resolved transaction signals
  "unusable" and leaves the transaction as it was, and the transition from Embryo to
  Active happens at the first operation: the work of an operation on an Embryo
  transaction runs on the transaction made Active, and after a put or delete the
  transaction is never Embryo.
\<close>

theorem ensure_active_cases:
  "ensure_active txn =
     (case state txn of
        TXN_EMBRYO \<Rightarrow> (None, txn\<lparr>state := TXN_ACTIVE\<rparr>)
      | TXN_ACTIVE \<Rightarrow> (None, txn)
      | TXN_COMMITED \<Rightarrow> (Some transaction_unusable_exception, txn)
      | TXN_ABRT \<Rightarrow> (Some transaction_unusable_exception, txn)) \<and>
   txn_operation work txn =
     (case state txn of
        TXN_EMBRYO \<Rightarrow> work (txn\<lparr>state := TXN_ACTIVE\<rparr>)
      | TXN_ACTIVE \<Rightarrow> work txn
      | TXN_COMMITED \<Rightarrow> (Inl transaction_unusable_exception, txn)
      | TXN_ABRT \<Rightarrow> (Inl transaction_unusable_exception, txn)) \<and>
   txn_put btr k v txn =
     (case state txn of
        TXN_EMBRYO \<Rightarrow> put_work btr k v (txn\<lparr>state := TXN_ACTIVE\<rparr>)
      | TXN_ACTIVE \<Rightarrow> put_work btr k v txn
      | TXN_COMMITED \<Rightarrow> (Inl transaction_unusable_exception, txn)
      | TXN_ABRT \<Rightarrow> (Inl transaction_unusable_exception, txn)) \<and>
   txn_delete btr k txn =
     (case state txn of
        TXN_EMBRYO \<Rightarrow> put_work btr k [] (txn\<lparr>state := TXN_ACTIVE\<rparr>)
      | TXN_ACTIVE \<Rightarrow> put_work btr k [] txn
      | TXN_COMMITED \<Rightarrow> (Inl transaction_unusable_exception, txn)
      | TXN_ABRT \<Rightarrow> (Inl transaction_unusable_exception, txn)) \<and>
   state (snd (txn_put btr k v txn)) \<noteq> TXN_EMBRYO \<and>
   state (snd (txn_delete btr k txn)) \<noteq> TXN_EMBRYO"
proof -
  have a: "ensure_active txn =
     (case state txn of
        TXN_EMBRYO \<Rightarrow> (None, txn\<lparr>state := TXN_ACTIVE\<rparr>)
      | TXN_ACTIVE \<Rightarrow> (None, txn)
      | TXN_COMMITED \<Rightarrow> (Some transaction_unusable_exception, txn)
      | TXN_ABRT \<Rightarrow> (Some transaction_unusable_exception, txn))"
    by (rule ensure_active_by_state)
  have b: "txn_operation work txn =
     (case state txn of
        TXN_EMBRYO \<Rightarrow> work (txn\<lparr>state := TXN_ACTIVE\<rparr>)
      | TXN_ACTIVE \<Rightarrow> work txn
      | TXN_COMMITED \<Rightarrow> (Inl transaction_unusable_exception, txn)
      | TXN_ABRT \<Rightarrow> (Inl transaction_unusable_exception, txn))"
    by (rule txn_operation_by_state)
  have c: "txn_put btr k v txn =
     (case state txn of
        TXN_EMBRYO \<Rightarrow> put_work btr k v (txn\<lparr>state := TXN_ACTIVE\<rparr>)
      | TXN_ACTIVE \<Rightarrow> put_work btr k v txn
      | TXN_COMMITED \<Rightarrow> (Inl transaction_unusable_exception, txn)
      | TXN_ABRT \<Rightarrow> (Inl transaction_unusable_exception, txn))"
    unfolding txn_put_def by (rule txn_operation_by_state)
  have d: "txn_delete btr k txn =
     (case state txn of
        TXN_EMBRYO \<Rightarrow> put_work btr k [] (txn\<lparr>state := TXN_ACTIVE\<rparr>)
      | TXN_ACTIVE \<Rightarrow> put_work btr k [] txn
      | TXN_COMMITED \<Rightarrow> (Inl transaction_unusable_exception, txn)
      | TXN_ABRT \<Rightarrow> (Inl transaction_unusable_exception, txn))"
    unfolding txn_delete_def txn_put_def by (rule txn_operation_by_state)
  have e: "state (snd (txn_put btr k v txn)) \<noteq> TXN_EMBRYO"
    by (rule txn_put_not_embryo)
  have f: "state (snd (txn_delete btr k txn)) \<noteq> TXN_EMBRYO"
    unfolding txn_delete_def by (rule txn_put_not_embryo)
  from a b c d e f show ?thesis
    by (intro conjI)
qed

text \<open>
  A put on a fresh transaction (Embryo, no flags, no context) makes it Active and
  buffers the value; a put on a committed or on an aborted transaction signals
  "unusable" and changes nothing.
\<close>

theorem ensure_active_cases_witness:
  "ensure_active \<lparr>state = TXN_EMBRYO, reason = ABORT_REASON_USER, flags = 0, ctx_map = Map.empty\<rparr> =
     (None, \<lparr>state = TXN_ACTIVE, reason = ABORT_REASON_USER, flags = 0, ctx_map = Map.empty\<rparr>) \<and>
   ensure_active \<lparr>state = TXN_ACTIVE, reason = ABORT_REASON_USER, flags = 0, ctx_map = Map.empty\<rparr> =
     (None, \<lparr>state = TXN_ACTIVE, reason = ABORT_REASON_USER, flags = 0, ctx_map = Map.empty\<rparr>) \<and>
   ensure_active \<lparr>state = TXN_COMMITED, reason = ABORT_REASON_USER, flags = 0, ctx_map = Map.empty\<rparr> =
     (Some transaction_unusable_exception,
      \<lparr>state = TXN_COMMITED, reason = ABORT_REASON_USER, flags = 0, ctx_map = Map.empty\<rparr>) \<and>
   ensure_active \<lparr>state = TXN_ABRT, reason = ABORT_REASON_USER, flags = 0, ctx_map = Map.empty\<rparr> =
     (Some transaction_unusable_exception,
      \<lparr>state = TXN_ABRT, reason = ABORT_REASON_USER, flags = 0, ctx_map = Map.empty\<rparr>) \<and>
   fst (txn_put 0 [0x61] [0x31]
     \<lparr>state = TXN_EMBRYO, reason = ABORT_REASON_USER, flags = 0, ctx_map = Map.empty\<rparr>) = Inr () \<and>
   state (snd (txn_put 0 [0x61] [0x31]
     \<lparr>state = TXN_EMBRYO, reason = ABORT_REASON_USER, flags = 0, ctx_map = Map.empty\<rparr>)) = TXN_ACTIVE \<and>
   write_set (context_of (snd (txn_put 0 [0x61] [0x31]
     \<lparr>state = TXN_EMBRYO, reason = ABORT_REASON_USER, flags = 0, ctx_map = Map.empty\<rparr>)) 0) [0x61] =
     Some [0x31] \<and>
   txn_put 0 [0x61] [0x31]
     \<lparr>state = TXN_COMMITED, reason = ABORT_REASON_USER, flags = 0, ctx_map = Map.empty\<rparr> =
     (Inl transaction_unusable_exception,
      \<lparr>state = TXN_COMMITED, reason = ABORT_REASON_USER, flags = 0, ctx_map = Map.empty\<rparr>) \<and>
   txn_delete 0 [0x61]
     \<lparr>state = TXN_ABRT, reason = ABORT_REASON_USER, flags = 0, ctx_map = Map.empty\<rparr> =
     (Inl transaction_unusable_exception,
      \<lparr>state = TXN_ABRT, reason = ABORT_REASON_USER, flags = 0, ctx_map = Map.empty\<rparr>)"
proof -
  note embryo = ensure_active_cases
    [of "\<lparr>state = TXN_EMBRYO, reason = ABORT_REASON_USER, flags = 0, ctx_map = Map.empty\<rparr>"
      "\<lambda>t. (Inr (), t)" 0 "[0x61]" "[0x31]"]
  note active = ensure_active_cases
    [of "\<lparr>state = TXN_ACTIVE, reason = ABORT_REASON_USER, flags = 0, ctx_map = Map.empty\<rparr>"
      "\<lambda>t. (Inr (), t)" 0 "[0x61]" "[0x31]"]
  note commited = ensure_active_cases
    [of "\<lparr>state = TXN_COMMITED, reason = ABORT_REASON_USER, flags = 0, ctx_map = Map.empty\<rparr>"
      "\<lambda>t. (Inr (), t)" 0 "[0x61]" "[0x31]"]
  note abrt = ensure_active_cases
    [of "\<lparr>state = TXN_ABRT, reason = ABORT_REASON_USER, flags = 0, ctx_map = Map.empty\<rparr>"
      "\<lambda>t. (Inr (), t)" 0 "[0x61]" "[0x31]"]
  have put: "txn_put 0 [0x61] [0x31]
      \<lparr>state = TXN_EMBRYO, reason = ABORT_REASON_USER, flags = 0, ctx_map = Map.empty\<rparr> =
    put_work 0 [0x61] [0x31]
      \<lparr>state = TXN_ACTIVE, reason = ABORT_REASON_USER, flags = 0, ctx_map = Map.empty\<rparr>"
    using embryo [THEN conjunct2, THEN conjunct2, THEN conjunct1] by simp
  have work: "put_work 0 [0x61] [0x31]
      \<lparr>state = TXN_ACTIVE, reason = ABORT_REASON_USER, flags = 0, ctx_map = Map.empty\<rparr> =
    (Inr (), \<lparr>state = TXN_ACTIVE, reason = ABORT_REASON_USER, flags = 0,
       ctx_map = [0 \<mapsto> \<lparr>read_set = Map.empty, write_set = [[0x61] \<mapsto> [0x31]],
         absent_range_set = [], node_scan = Map.empty\<rparr>]\<rparr>)"
    by (simp add: put_work_def context_of_def empty_context_def TXN_FLAG_READ_ONLY_def)
  have e1: "ensure_active \<lparr>state = TXN_EMBRYO, reason = ABORT_REASON_USER, flags = 0, ctx_map = Map.empty\<rparr> =
     (None, \<lparr>state = TXN_ACTIVE, reason = ABORT_REASON_USER, flags = 0, ctx_map = Map.empty\<rparr>)"
    using embryo [THEN conjunct1] by simp
  have e2: "ensure_active \<lparr>state = TXN_ACTIVE, reason = ABORT_REASON_USER, flags = 0, ctx_map = Map.empty\<rparr> =
     (None, \<lparr>state = TXN_ACTIVE, reason = ABORT_REASON_USER, flags = 0, ctx_map = Map.empty\<rparr>)"
    using active [THEN conjunct1] by simp
  have e3: "ensure_active \<lparr>state = TXN_COMMITED, reason = ABORT_REASON_USER, flags = 0, ctx_map = Map.empty\<rparr> =
     (Some transaction_unusable_exception,
      \<lparr>state = TXN_COMMITED, reason = ABORT_REASON_USER, flags = 0, ctx_map = Map.empty\<rparr>)"
    using commited [THEN conjunct1] by simp
  have e4: "ensure_active \<lparr>state = TXN_ABRT, reason = ABORT_REASON_USER, flags = 0, ctx_map = Map.empty\<rparr> =
     (Some transaction_unusable_exception,
      \<lparr>state = TXN_ABRT, reason = ABORT_REASON_USER, flags = 0, ctx_map = Map.empty\<rparr>)"
    using abrt [THEN conjunct1] by simp
  have p3: "txn_put 0 [0x61] [0x31]
     \<lparr>state = TXN_COMMITED, reason = ABORT_REASON_USER, flags = 0, ctx_map = Map.empty\<rparr> =
     (Inl transaction_unusable_exception,
      \<lparr>state = TXN_COMMITED, reason = ABORT_REASON_USER, flags = 0, ctx_map = Map.empty\<rparr>)"
    using commited [THEN conjunct2, THEN conjunct2, THEN conjunct1] by simp
  have d4: "txn_delete 0 [0x61]
     \<lparr>state = TXN_ABRT, reason = ABORT_REASON_USER, flags = 0, ctx_map = Map.empty\<rparr> =
     (Inl transaction_unusable_exception,
      \<lparr>state = TXN_ABRT, reason = ABORT_REASON_USER, flags = 0, ctx_map = Map.empty\<rparr>)"
    using abrt [THEN conjunct2, THEN conjunct2, THEN conjunct2, THEN conjunct1] by simp
  from e1 e2 e3 e4 p3 d4 show ?thesis
    by (simp add: put work context_of_def)
qed

section \<open>Properties of chains\<close>

subsection \<open>Reading a chain\<close>

lemma chain_cells_node:
  "chain_cells (logical_node h p ver sz asz vs) =
     logical_node h p ver sz asz vs # (case p of None \<Rightarrow> [] | Some p' \<Rightarrow> chain_cells p')"
  by (subst chain_cells.simps) simp

lemma record_at_unlocked:
  assumes "\<not> is_locked n"
  shows "record_at t start_t r require_latest n =
     (if is_not_behind n t then
        Some (if require_latest \<and> \<not> is_latest n then (False, start_t, r)
              else (True, version n, take (unat (size_fld n)) (value_start n)))
      else (case next_ptr n of
              None \<Rightarrow> Some (False, start_t, r)
            | Some p \<Rightarrow> record_at t start_t r False p))"
  using assms
  by (subst record_at.simps)
     (simp add: is_locked_def is_latest_def stable_version_unlocked check_version_def Let_def)

lemma record_at_locked: "is_locked n \<Longrightarrow> record_at t start_t r require_latest n = None"
  by (subst record_at.simps) (simp add: is_locked_def stable_version_locked)

lemma record_at_ancestors:
  "\<forall>c \<in> set (chain_cells n). \<not> is_locked c \<Longrightarrow>
   record_at t start_t r False n =
     Some (case find (\<lambda>c. version c \<le> t) (chain_cells n) of
             None \<Rightarrow> (False, start_t, r)
           | Some c \<Rightarrow> (True, version c, take (unat (size_fld c)) (value_start c)))"
proof (induction n rule: chain_cells.induct)
  case (1 n)
  have cells: "chain_cells n = n # (case next_ptr n of None \<Rightarrow> [] | Some p \<Rightarrow> chain_cells p)"
    by (subst chain_cells.simps) simp
  from "1.prems" cells have u: "\<not> is_locked n"
    by (metis list.set_intros(1))
  show ?case
  proof (cases "next_ptr n")
    case None
    with cells u show ?thesis
      by (simp add: record_at_unlocked is_not_behind_def)
  next
    case (Some p)
    with cells "1.prems" have "\<forall>c \<in> set (chain_cells p). \<not> is_locked c"
      by simp
    with "1.IH" Some have "record_at t start_t r False p =
      Some (case find (\<lambda>c. version c \<le> t) (chain_cells p) of
              None \<Rightarrow> (False, start_t, r)
            | Some c \<Rightarrow> (True, version c, take (unat (size_fld c)) (value_start c)))"
      by simp
    with Some cells u show ?thesis
      by (simp add: record_at_unlocked is_not_behind_def)
  qed
qed

text \<open>
  Claim C1. On a finite chain whose cells are all unlocked, \<^verbatim>\<open>stable_read\<close>
  (that is \<^verbatim>\<open>record_at\<close> with \<^verbatim>\<open>require_latest\<close> true at the entry cell)
  returns. It returns true exactly when some cell of the chain has \<open>tid \<le> t\<close>, unless
  the entry cell itself has \<open>tid \<le> t\<close> and does not carry the LATEST bit: then the
  read fails, and \<^verbatim>\<open>start_t\<close> and \<^verbatim>\<open>r\<close> are left as they were. When it returns
  true, \<^verbatim>\<open>start_t\<close> is the tid and \<^verbatim>\<open>r\<close> the payload bytes \<open>[0..size)\<close> of the
  first cell along the chain with \<open>tid \<le> t\<close>. The cells after the entry cell are read
  by \<^verbatim>\<open>record_at\<close> with \<^verbatim>\<open>require_latest\<close> false: their LATEST bits play no role.
\<close>

theorem stable_read_chain:
  assumes "\<forall>c \<in> set (chain_cells n). \<not> is_locked c"
  shows "stable_read t start_t r n =
           Some (if version n \<le> t \<and> \<not> is_latest n then (False, start_t, r)
                 else (case find (\<lambda>c. version c \<le> t) (chain_cells n) of
                         None \<Rightarrow> (False, start_t, r)
                       | Some c \<Rightarrow> (True, version c, take (unat (size_fld c)) (value_start c)))) \<and>
         ((\<exists>st' r'. stable_read t start_t r n = Some (True, st', r')) \<longleftrightarrow>
            (\<exists>c \<in> set (chain_cells n). version c \<le> t) \<and> \<not> (version n \<le> t \<and> \<not> is_latest n)) \<and>
         stable_read t start_t r n =
           (if version n \<le> t then
              Some (if is_latest n then (True, version n, take (unat (size_fld n)) (value_start n))
                    else (False, start_t, r))
            else (case next_ptr n of
                    None \<Rightarrow> Some (False, start_t, r)
                  | Some p \<Rightarrow> record_at t start_t r False p))"
proof -
  have cells: "chain_cells n = n # (case next_ptr n of None \<Rightarrow> [] | Some p \<Rightarrow> chain_cells p)"
    by (subst chain_cells.simps) simp
  from assms cells have u: "\<not> is_locked n"
    by (metis list.set_intros(1))
  have entry: "stable_read t start_t r n =
      (if version n \<le> t then
         Some (if is_latest n then (True, version n, take (unat (size_fld n)) (value_start n))
               else (False, start_t, r))
       else (case next_ptr n of
               None \<Rightarrow> Some (False, start_t, r)
             | Some p \<Rightarrow> record_at t start_t r False p))"
    using u by (simp add: stable_read_def record_at_unlocked is_not_behind_def)
  have whole: "stable_read t start_t r n =
      Some (if version n \<le> t \<and> \<not> is_latest n then (False, start_t, r)
            else (case find (\<lambda>c. version c \<le> t) (chain_cells n) of
                    None \<Rightarrow> (False, start_t, r)
                  | Some c \<Rightarrow> (True, version c, take (unat (size_fld c)) (value_start c))))"
  proof (cases "version n \<le> t")
    case True
    then have "find (\<lambda>c. version c \<le> t) (chain_cells n) = Some n"
      by (subst cells) simp
    with True entry show ?thesis by simp
  next
    case False
    show ?thesis
    proof (cases "next_ptr n")
      case None
      with False entry cells show ?thesis by simp
    next
      case (Some p)
      with cells assms have "\<forall>c \<in> set (chain_cells p). \<not> is_locked c"
        by simp
      from record_at_ancestors [OF this, of t start_t r] Some False entry cells
      show ?thesis by simp
    qed
  qed
  have iff: "(\<exists>st' r'. stable_read t start_t r n = Some (True, st', r')) \<longleftrightarrow>
      (\<exists>c \<in> set (chain_cells n). version c \<le> t) \<and> \<not> (version n \<le> t \<and> \<not> is_latest n)"
  proof (cases "find (\<lambda>c. version c \<le> t) (chain_cells n)")
    case None
    then have "\<not> (\<exists>c \<in> set (chain_cells n). version c \<le> t)"
      by (simp add: find_None_iff)
    with None whole show ?thesis by auto
  next
    case (Some c)
    then have "\<exists>c \<in> set (chain_cells n). version c \<le> t"
      by (metis find_None_iff option.distinct(1))
    with Some whole show ?thesis by auto
  qed
  from whole iff entry show ?thesis by blast
qed

text \<open>A chain of two unlocked cells, at tids 5 (latest) and 2, read at tid 3.\<close>

theorem stable_read_chain_witness:
  "chain_cells (logical_node 8 (Some (logical_node 0 None 2 2 16 [0x61, 0x62, 0x63])) 5 1 16 [0x7A, 0x62, 0x63]) =
     [logical_node 8 (Some (logical_node 0 None 2 2 16 [0x61, 0x62, 0x63])) 5 1 16 [0x7A, 0x62, 0x63],
      logical_node 0 None 2 2 16 [0x61, 0x62, 0x63]] \<and>
   \<not> is_locked (logical_node 8 (Some (logical_node 0 None 2 2 16 [0x61, 0x62, 0x63])) 5 1 16 [0x7A, 0x62, 0x63]) \<and>
   \<not> is_locked (logical_node 0 None 2 2 16 [0x61, 0x62, 0x63]) \<and>
   stable_read 3 0 [] (logical_node 8 (Some (logical_node 0 None 2 2 16 [0x61, 0x62, 0x63])) 5 1 16 [0x7A, 0x62, 0x63]) =
     Some (True, 2, [0x61, 0x62])"
proof -
  have u: "\<forall>c \<in> set (chain_cells (logical_node 8 (Some (logical_node 0 None 2 2 16 [0x61, 0x62, 0x63])) 5 1 16 [0x7A, 0x62, 0x63])). \<not> is_locked c"
    by (simp add: chain_cells_node is_locked_def IsLocked_def HDR_LOCKED_MASK_def)
  from stable_read_chain [OF u, of 3 0 "[]"] u show ?thesis
    by (simp add: chain_cells_node)
qed

subsection \<open>Writing: spill or overwrite\<close>

lemma length_chain_cells:
  "length (chain_cells n) = Suc (case next_ptr n of None \<Rightarrow> 0 | Some p \<Rightarrow> length (chain_cells p))"
  by (subst chain_cells.simps) (simp split: option.splits)

lemma write_record_at_no_overwrite:
  assumes "\<not> can_overwrite_record_tid cb txn (version this) t"
  shows "fst (fst (write_record_at cb txn t r sz this)) \<and>
         length (chain_cells (new_head (write_record_at cb txn t r sz this))) =
           Suc (length (chain_cells this))"
proof (cases "sz \<le> ucast (alloc_size this)")
  case True
  with assms show ?thesis
    by (simp add: write_record_at_def new_head_def Let_def alloc_def logical_node_ctor_def
        length_chain_cells [of "logical_node h p v s a vs" for h p v s a vs]
        length_chain_cells [of this])
next
  case False
  with assms show ?thesis
    by (simp add: write_record_at_def new_head_def Let_def alloc_def logical_node_ctor_def
        length_chain_cells [of "logical_node h p v s a vs" for h p v s a vs]
        length_chain_cells [of this])
qed

lemma write_record_at_overwrite:
  assumes "can_overwrite_record_tid cb txn (version this) t"
  shows "\<not> fst (fst (write_record_at cb txn t r sz this)) \<and>
         length (chain_cells (new_head (write_record_at cb txn t r sz this))) =
           length (chain_cells this)"
proof (cases "sz \<le> ucast (alloc_size this)")
  case True
  with assms show ?thesis
    by (simp add: write_record_at_def new_head_def Let_def alloc_def logical_node_ctor_def
        length_chain_cells [of "logical_node h p v s a vs" for h p v s a vs]
        length_chain_cells [of this])
next
  case False
  with assms show ?thesis
    by (simp add: write_record_at_def new_head_def Let_def alloc_def logical_node_ctor_def
        length_chain_cells [of "logical_node h p v s a vs" for h p v s a vs]
        length_chain_cells [of this])
qed

text \<open>
  Claim C5. \<^verbatim>\<open>can_overwrite_record_tid\<close> decides between updating in place and
  spilling. The base \<^verbatim>\<open>transaction\<close>, and with it protocol 1, which does not
  override it, returns false for every pair of tids: under protocol 1 every write
  reports growth and makes the chain one cell longer. \<^verbatim>\<open>transaction_proto2\<close> returns
  true exactly when the epochs of the two tids are equal: under protocol 2 a write
  overwrites (no growth, same chain length) within an epoch and never across an epoch
  boundary.
\<close>

theorem can_overwrite_record_tid_protocols:
  "\<not> transaction_can_overwrite_record_tid prev cur \<and>
   \<not> can_overwrite_record_tid cb transaction_proto1 prev cur \<and>
   fst (fst (write_record_at cb transaction_proto1 t r sz this)) \<and>
   length (chain_cells (new_head (write_record_at cb transaction_proto1 t r sz this))) =
     Suc (length (chain_cells this)) \<and>
   can_overwrite_record_tid cb transaction_proto2 prev cur = (EpochId cb prev = EpochId cb cur) \<and>
   fst (fst (write_record_at cb transaction_proto2 t r sz this)) =
     (EpochId cb (version this) \<noteq> EpochId cb t) \<and>
   length (chain_cells (new_head (write_record_at cb transaction_proto2 t r sz this))) =
     (if EpochId cb (version this) = EpochId cb t then length (chain_cells this)
      else Suc (length (chain_cells this)))"
proof -
  have p1: "\<not> can_overwrite_record_tid cb transaction_proto1 (version this) t"
    by (simp add: transaction_can_overwrite_record_tid_def)
  have p2: "can_overwrite_record_tid cb transaction_proto2 (version this) t =
      (EpochId cb (version this) = EpochId cb t)"
    by (simp add: transaction_proto2_can_overwrite_record_tid_def)
  show ?thesis
    using write_record_at_no_overwrite [OF p1, of r sz]
      write_record_at_no_overwrite [of cb transaction_proto2 this t r sz]
      write_record_at_overwrite [of cb transaction_proto2 this t r sz] p2
    by (simp add: transaction_can_overwrite_record_tid_def
        transaction_proto2_can_overwrite_record_tid_def)
qed

text \<open>
  Claim C2 asks that the spill cell hold the old payload, all \<^verbatim>\<open>size\<close> bytes of it.
  The spill branch calls \<^verbatim>\<open>alloc(version, &value_start[0], sz, next, false)\<close>: it
  passes the new size \<^verbatim>\<open>sz\<close>, not the cell's \<^verbatim>\<open>size\<close>. The locked, latest cell
  below holds the three bytes \<open>abc\<close> at tid 4; writing the one byte \<open>z\<close> at tid 7
  under protocol 1 spills a cell at tid 4 with \<^verbatim>\<open>size\<close> 1 that holds \<open>a\<close> only, and
  after the unlock a read at tid 5 returns \<open>a\<close>.
\<close>

theorem write_record_at_spill_loses_old_record:
  "is_locked (logical_node 9 None 4 3 16 ([0x61, 0x62, 0x63] @ replicate 13 0)) \<and>
   is_latest (logical_node 9 None 4 3 16 ([0x61, 0x62, 0x63] @ replicate 13 0)) \<and>
   \<not> can_overwrite_record_tid cb transaction_proto1 4 7 \<and>
   write_record_at cb transaction_proto1 7 [0x7A] 1
       (logical_node 9 None 4 3 16 ([0x61, 0x62, 0x63] @ replicate 13 0)) =
     ((True, None),
      logical_node 9 (Some (logical_node 0 None 4 1 16 (0x61 # replicate 15 0))) 7 1 16
        ([0x7A, 0x62, 0x63] @ replicate 13 0)) \<and>
   stable_read 5 0 []
       (logical_node (unlock 9) (Some (logical_node 0 None 4 1 16 (0x61 # replicate 15 0))) 7 1 16
          ([0x7A, 0x62, 0x63] @ replicate 13 0)) =
     Some (True, 4, [0x61])"
proof -
  have a: "is_locked (logical_node 9 None 4 3 16 ([0x61, 0x62, 0x63] @ replicate 13 0))"
    by (simp add: is_locked_def IsLocked_def HDR_LOCKED_MASK_def)
  have b: "is_latest (logical_node 9 None 4 3 16 ([0x61, 0x62, 0x63] @ replicate 13 0))"
    by (simp add: is_latest_def IsLatest_def HDR_LATEST_MASK_def HDR_LATEST_SHIFT_def)
  have c: "\<not> can_overwrite_record_tid cb transaction_proto1 4 7"
    by (simp add: transaction_can_overwrite_record_tid_def)
  have d: "write_record_at cb transaction_proto1 7 [0x7A] 1
       (logical_node 9 None 4 3 16 ([0x61, 0x62, 0x63] @ replicate 13 0)) =
     ((True, None),
      logical_node 9 (Some (logical_node 0 None 4 1 16 (0x61 # replicate 15 0))) 7 1 16
        ([0x7A, 0x62, 0x63] @ replicate 13 0))"
    by (simp add: write_record_at_def transaction_can_overwrite_record_tid_def alloc_def
        logical_node_ctor_def round_up_16_def sizeof_logical_node_def memcpy_def Let_def)
  have u: "\<not> IsLocked (unlock 9)"
    by (simp add: IsLocked_bit bit_unlock)
  have e: "stable_read 5 0 []
       (logical_node (unlock 9) (Some (logical_node 0 None 4 1 16 (0x61 # replicate 15 0))) 7 1 16
          ([0x7A, 0x62, 0x63] @ replicate 13 0)) =
     Some (True, 4, [0x61])"
    using u
    by (simp add: stable_read_def record_at_unlocked is_locked_def is_not_behind_def
        IsLocked_def HDR_LOCKED_MASK_def)
  from a b c d e show ?thesis by simp
qed

section \<open>Properties of the TID layout\<close>

text \<open>
  The masks bit by bit, the extractors as shifts, and what the static assertions say
  about the macros: together with \<open>2^CoreBits \<ge> NMaxCores\<close> they hold exactly when
  \<open>NMaxCores = 2^CoreBits\<close> and \<open>CoreBits < 37\<close>.
\<close>

lemma bit_NumIdMask: "bit (NumIdMask cb) k = (cb \<le> k \<and> k < cb + 27 \<and> k < 64)"
proof -
  have m: "(push_bit 27 1 - 1 :: 64 word) = mask 27"
    by (simp add: mask_eq_exp_minus_1 push_bit_of_1)
  show ?thesis
    unfolding NumIdMask_def NumIdShift_def m
    by (auto simp add: bit_simps)
qed

lemma bit_EpochMask: "bit (EpochMask cb) k = (cb + 27 \<le> k \<and> k < 64)"
  by (auto simp add: EpochMask_def EpochShift_def NumIdShift_def bit_simps)

lemma EpochId_drop_bit: "EpochId cb v = drop_bit (cb + 27) v"
  unfolding EpochId_def
  by (rule bit_eqI)
     (auto simp add: bit_simps bit_EpochMask EpochShift_def NumIdShift_def dest: bit_imp_le_length)

lemma NumId_take_drop: "NumId cb v = take_bit 27 (drop_bit cb v)"
  unfolding NumId_def
  by (rule bit_eqI)
     (auto simp add: bit_simps bit_NumIdMask NumIdShift_def dest: bit_imp_le_length)

lemma unat_less_take_bit_self:
  fixes w :: "64 word"
  assumes "unat w < 2 ^ n"
  shows "take_bit n w = w"
proof -
  have "unat (take_bit n w) = unat w"
    using assms by (simp add: unsigned_take_bit_eq take_bit_nat_eq_self)
  then show ?thesis
    by (simp only: word_unat_eq_iff)
qed

lemma unat_take_bit_less:
  fixes w :: "64 word"
  shows "unat (take_bit n w) < 2 ^ n"
  by (simp add: unsigned_take_bit_eq)

lemma unat_exp_64:
  assumes "cb < 64"
  shows "unat (2 ^ cb :: 64 word) = 2 ^ cb"
proof -
  have lt: "(2::nat) ^ cb < 2 ^ 64"
    using assms by (intro power_strict_increasing) simp_all
  have "unat (2 ^ cb :: 64 word) = unat (word_of_nat (2 ^ cb) :: 64 word)"
    by simp
  also have "\<dots> = 2 ^ cb mod 2 ^ 64"
    by (simp only: unat_of_nat) simp
  also have "\<dots> = 2 ^ cb"
    using lt by simp
  finally show ?thesis .
qed

lemma macros_ok_CoreMask:
  assumes "proto2_macros_ok cb nmax"
  shows "CoreMask nmax = mask cb"
proof -
  from assms have cover: "(CoreMask nmax OR NumIdMask cb OR EpochMask cb) = - 1"
    and disj: "(CoreMask nmax AND NumIdMask cb) = 0"
    and cb: "cb < 37" and le: "unat nmax \<le> 2 ^ cb"
    by (simp_all add: proto2_macros_ok_def MakeTid_static_asserts_def EpochShift_def
        NumIdShift_def)
  have low: "bit (CoreMask nmax) k" if "k < cb" for k
  proof -
    from that cb have "k < 64" by simp
    then have "bit (CoreMask nmax OR NumIdMask cb OR EpochMask cb) k"
      unfolding cover by (simp add: bit_simps)
    with that show ?thesis
      by (simp add: bit_simps bit_NumIdMask bit_EpochMask)
  qed
  have nz: "nmax \<noteq> 0"
  proof
    assume "nmax = 0"
    then have "bit (CoreMask nmax AND NumIdMask cb) cb"
      using cb by (simp add: CoreMask_def bit_simps bit_NumIdMask)
    with disj show False by simp
  qed
  then have "unat (CoreMask nmax) = unat nmax - 1"
    unfolding CoreMask_def by (simp add: unat_minus_one)
  moreover from nz have "0 < unat nmax"
    by (simp add: unat_gt_0)
  ultimately have "unat (CoreMask nmax) < 2 ^ cb"
    using le by simp
  then have high: "take_bit cb (CoreMask nmax) = CoreMask nmax"
    by (rule unat_less_take_bit_self)
  show ?thesis
  proof (rule bit_eqI)
    fix k
    assume "possible_bit TYPE(64 word) k"
    have "bit (CoreMask nmax) k = bit (take_bit cb (CoreMask nmax)) k"
      by (simp only: high)
    also have "\<dots> = (k < cb \<and> bit (CoreMask nmax) k)"
      by (simp add: bit_simps)
    also have "\<dots> = (k < cb)"
      using low by auto
    also have "\<dots> = bit (mask cb :: 64 word) k"
      using cb by (auto simp add: bit_simps)
    finally show "bit (CoreMask nmax) k = bit (mask cb :: 64 word) k" .
  qed
qed

lemma pow2_macros_ok:
  assumes "cb < 37"
  shows "proto2_macros_ok cb (2 ^ cb)"
proof -
  have cm: "CoreMask (2 ^ cb) = mask cb"
    by (simp add: CoreMask_def mask_eq_exp_minus_1)
  have "(mask cb OR NumIdMask cb OR EpochMask cb) = (- 1 :: 64 word)"
    by (rule bit_eqI) (auto simp add: bit_simps bit_NumIdMask bit_EpochMask)
  moreover have "(mask cb AND NumIdMask cb) = (0 :: 64 word)"
    by (rule bit_eqI) (auto simp add: bit_simps bit_NumIdMask)
  moreover have "(NumIdMask cb AND EpochMask cb) = 0"
    by (rule bit_eqI) (auto simp add: bit_simps bit_NumIdMask bit_EpochMask)
  moreover have "unat (2 ^ cb :: 64 word) \<le> 2 ^ cb"
    by (metis le_unat_uoi linorder_linear of_nat_numeral of_nat_power)
  ultimately show ?thesis
    using assms
    by (simp add: proto2_macros_ok_def MakeTid_static_asserts_def cm EpochShift_def NumIdShift_def)
qed

lemma macros_ok_iff: "proto2_macros_ok cb nmax \<longleftrightarrow> cb < 37 \<and> nmax = 2 ^ cb"
proof
  assume ok: "proto2_macros_ok cb nmax"
  then have "cb < 37"
    by (simp add: proto2_macros_ok_def EpochShift_def NumIdShift_def)
  moreover have "nmax = 2 ^ cb"
  proof -
    have "nmax = CoreMask nmax + 1"
      by (simp add: CoreMask_def)
    also have "\<dots> = mask cb + 1"
      by (simp only: macros_ok_CoreMask [OF ok])
    also have "\<dots> = 2 ^ cb"
      by (simp add: mask_eq_exp_minus_1)
    finally show ?thesis .
  qed
  ultimately show "cb < 37 \<and> nmax = 2 ^ cb" by simp
next
  assume "cb < 37 \<and> nmax = 2 ^ cb"
  then show "proto2_macros_ok cb nmax"
    using pow2_macros_ok by simp
qed

lemma CoreId_take_bit: "proto2_macros_ok cb nmax \<Longrightarrow> CoreId nmax v = take_bit cb v"
  by (simp add: CoreId_def macros_ok_CoreMask take_bit_eq_mask)

lemma MakeTid_fields:
  fixes c n e :: "64 word"
  assumes cb: "cb < 37"
    and c: "take_bit cb c = c" and n: "take_bit 27 n = n" and e: "take_bit (37 - cb) e = e"
  shows "take_bit cb (MakeTid cb c n e) = c"
    and "take_bit 27 (drop_bit cb (MakeTid cb c n e)) = n"
    and "drop_bit (cb + 27) (MakeTid cb c n e) = e"
proof -
  have bc: "bit c k = (k < cb \<and> bit c k)" for k
    by (subst c [symmetric]) (simp add: bit_simps)
  have bn: "bit n k = (k < 27 \<and> bit n k)" for k
    by (subst n [symmetric]) (simp add: bit_simps)
  have be: "bit e k = (k < 37 - cb \<and> bit e k)" for k
    by (subst e [symmetric]) (simp add: bit_simps)
  have bm: "bit (MakeTid cb c n e) k =
      (k < 64 \<and> (bit c k \<or> (cb \<le> k \<and> bit n (k - cb)) \<or> (cb + 27 \<le> k \<and> bit e (k - (cb + 27)))))" for k
    by (auto simp add: MakeTid_def EpochShift_def NumIdShift_def bit_simps dest: bit_imp_le_length)
  show "take_bit cb (MakeTid cb c n e) = c"
  proof (rule bit_eqI)
    fix k
    show "bit (take_bit cb (MakeTid cb c n e)) k = bit c k"
      using cb bc [of k] by (auto simp add: bit_simps bm dest: bit_imp_le_length)
  qed
  show "take_bit 27 (drop_bit cb (MakeTid cb c n e)) = n"
  proof (rule bit_eqI)
    fix k
    show "bit (take_bit 27 (drop_bit cb (MakeTid cb c n e))) k = bit n k"
      using cb bc [of "cb + k"] bn [of k] by (auto simp add: bit_simps bm)
  qed
  show "drop_bit (cb + 27) (MakeTid cb c n e) = e"
  proof (rule bit_eqI)
    fix k
    show "bit (drop_bit (cb + 27) (MakeTid cb c n e)) k = bit e k"
      using cb bc [of "cb + 27 + k"] bn [of "27 + k"] be [of k]
      by (auto simp add: bit_simps bm)
  qed
qed

lemma MakeTid_of_fields:
  assumes "cb < 37"
  shows "MakeTid cb (take_bit cb v) (take_bit 27 (drop_bit cb v)) (drop_bit (cb + 27) v) = v"
proof (rule bit_eqI)
  fix k
  assume "possible_bit TYPE(64 word) k"
  then have k: "k < 64" by simp
  consider "k < cb" | "cb \<le> k" "k < cb + 27" | "cb + 27 \<le> k"
    by linarith
  then show "bit (MakeTid cb (take_bit cb v) (take_bit 27 (drop_bit cb v))
      (drop_bit (cb + 27) v)) k = bit v k"
  proof cases
    case 1
    with k show ?thesis
      by (simp add: MakeTid_def EpochShift_def NumIdShift_def bit_simps)
  next
    case 2
    with k show ?thesis
      by (auto simp add: MakeTid_def EpochShift_def NumIdShift_def bit_simps)
  next
    case 3
    with k show ?thesis
      by (auto simp add: MakeTid_def EpochShift_def NumIdShift_def bit_simps)
  qed
qed

text \<open>
  The layout the code has, for any macros the program can be built with: the core
  field is the low \<open>CoreBits\<close> bits (and \<open>NMaxCores = 2^CoreBits\<close>), the num field the
  next 27 bits, and the epoch field the remaining top \<open>37 - CoreBits\<close> bits:
  \<open>CoreId(v) = v mod 2^CoreBits\<close>, \<open>NumId(v) = (v >> CoreBits) mod 2^27\<close> and
  \<open>EpochId(v) = v >> (CoreBits + 27)\<close>. The three fields are all of \<open>v\<close>. The TID
  with bit 27 alone has epoch 0 unless \<open>CoreBits = 0\<close>.
\<close>

lemma tid_layout:
  assumes "proto2_macros_ok cb nmax"
  shows "cb < 37 \<and> unat nmax = 2 ^ cb \<and>
         CoreId nmax v = take_bit cb v \<and>
         NumId cb v = take_bit 27 (drop_bit cb v) \<and>
         EpochId cb v = drop_bit (cb + 27) v \<and>
         unat (CoreId nmax v) < 2 ^ cb \<and>
         unat (NumId cb v) < 2 ^ 27 \<and>
         unat (EpochId cb v) < 2 ^ (37 - cb) \<and>
         (37 - cb) + 27 + cb = 64 \<and>
         MakeTid cb (CoreId nmax v) (NumId cb v) (EpochId cb v) = v \<and>
         EpochId cb (push_bit 27 1) = (if cb = 0 then 1 else 0)"
proof -
  from assms have cb: "cb < 37" and nmax: "nmax = 2 ^ cb"
    by (simp_all add: macros_ok_iff)
  from cb nmax have un: "unat nmax = 2 ^ cb"
    by (simp add: unat_exp_64)
  have core: "CoreId nmax v = take_bit cb v"
    using assms by (rule CoreId_take_bit)
  have num: "NumId cb v = take_bit 27 (drop_bit cb v)"
    by (rule NumId_take_drop)
  have epoch: "EpochId cb v = drop_bit (cb + 27) v"
    by (rule EpochId_drop_bit)
  have "take_bit (37 - cb) (drop_bit (cb + 27) v) = drop_bit (cb + 27) v"
    using cb by (intro bit_eqI) (auto simp add: bit_simps dest: bit_imp_le_length)
  then have "unat (drop_bit (cb + 27) v) = unat (take_bit (37 - cb) (drop_bit (cb + 27) v))"
    by simp
  then have ebound: "unat (EpochId cb v) < 2 ^ (37 - cb)"
    unfolding epoch by (simp only: unat_take_bit_less)
  have whole: "MakeTid cb (take_bit cb v) (take_bit 27 (drop_bit cb v)) (drop_bit (cb + 27) v) = v"
    using cb by (rule MakeTid_of_fields)
  have "EpochId cb (push_bit 27 1) = drop_bit cb (drop_bit 27 (push_bit 27 1))"
    by (simp only: EpochId_drop_bit drop_bit_drop_bit)
  also have "drop_bit 27 (push_bit 27 1 :: 64 word) = 1"
    by (simp add: drop_bit_eq_div push_bit_eq_mult)
  finally have probe: "EpochId cb (push_bit 27 1) = (if cb = 0 then 1 else 0)"
    by (simp add: drop_bit_of_1)
  have cbound: "unat (CoreId nmax v) < 2 ^ cb"
    unfolding core by (rule unat_take_bit_less)
  have nbound: "unat (NumId cb v) < 2 ^ 27"
    unfolding num by (rule unat_take_bit_less)
  have total: "(37 - cb) + 27 + cb = 64"
    using cb by simp
  from whole have whole': "MakeTid cb (CoreId nmax v) (NumId cb v) (EpochId cb v) = v"
    by (simp only: core num epoch)
  from cb un core num epoch cbound nbound ebound total whole' probe show ?thesis
    by blast
qed

text \<open>The layout with ten core bits, at the TID with all bits set.\<close>

lemma tid_layout_all_ones:
  "proto2_macros_ok 10 1024 \<and>
   CoreId 1024 0xFFFFFFFFFFFFFFFF = 0x3FF \<and>
   NumId 10 0xFFFFFFFFFFFFFFFF = 0x7FFFFFF \<and>
   EpochId 10 0xFFFFFFFFFFFFFFFF = 0x7FFFFFF"
proof -
  have ok: "proto2_macros_ok 10 1024"
    by (simp add: macros_ok_iff)
  from tid_layout [OF ok, of "0xFFFFFFFFFFFFFFFF"] ok show ?thesis
    by (simp add: drop_bit_eq_div take_bit_eq_mod)
qed


text \<open>
  Claim C10. \<^verbatim>\<open>MakeTid\<close> and the extractors round-trip: for \<open>core_id < NMaxCores\<close>,
  \<open>num_id < 2^27\<close> and \<open>epoch_id < 2^(64 - CoreBits - 27)\<close>, the TID
  \<open>MakeTid(core_id, num_id, epoch_id)\<close> has these three fields; and the masks
  \<^verbatim>\<open>CoreMask\<close>, \<^verbatim>\<open>NumIdMask\<close>, \<^verbatim>\<open>EpochMask\<close> are pairwise disjoint and cover
  all 64 bits.
\<close>

theorem MakeTid_round_trip:
  assumes "proto2_macros_ok cb nmax"
    and "unat core_id < unat nmax"
    and "unat num_id < 2 ^ 27"
    and "unat epoch_id < 2 ^ (64 - cb - 27)"
  shows "CoreId nmax (MakeTid cb core_id num_id epoch_id) = core_id \<and>
         NumId cb (MakeTid cb core_id num_id epoch_id) = num_id \<and>
         EpochId cb (MakeTid cb core_id num_id epoch_id) = epoch_id \<and>
         (CoreMask nmax AND NumIdMask cb) = 0 \<and>
         (CoreMask nmax AND EpochMask cb) = 0 \<and>
         (NumIdMask cb AND EpochMask cb) = 0 \<and>
         (CoreMask nmax OR NumIdMask cb OR EpochMask cb) = - 1"
proof -
  from assms(1) have cb: "cb < 37" and nmax: "nmax = 2 ^ cb"
    by (simp_all add: macros_ok_iff)
  from cb nmax assms(2) have "unat core_id < 2 ^ cb"
    by (simp add: unat_exp_64)
  then have c: "take_bit cb core_id = core_id"
    by (rule unat_less_take_bit_self)
  from assms(3) have n: "take_bit 27 num_id = num_id"
    by (rule unat_less_take_bit_self)
  have "64 - cb - 27 = 37 - cb"
    by simp
  with assms(4) have "unat epoch_id < 2 ^ (37 - cb)"
    by simp
  then have e: "take_bit (37 - cb) epoch_id = epoch_id"
    by (rule unat_less_take_bit_self)
  note fields = MakeTid_fields [OF cb c n e]
  have cm: "CoreMask nmax = mask cb"
    using assms(1) by (rule macros_ok_CoreMask)
  have m1: "(CoreMask nmax AND NumIdMask cb) = 0"
    unfolding cm by (rule bit_eqI) (auto simp add: bit_simps bit_NumIdMask)
  have m2: "(CoreMask nmax AND EpochMask cb) = 0"
    unfolding cm by (rule bit_eqI) (auto simp add: bit_simps bit_EpochMask)
  have m3: "(NumIdMask cb AND EpochMask cb) = 0"
    by (rule bit_eqI) (auto simp add: bit_simps bit_NumIdMask bit_EpochMask)
  have m4: "(CoreMask nmax OR NumIdMask cb OR EpochMask cb) = - 1"
    unfolding cm by (rule bit_eqI) (auto simp add: bit_simps bit_NumIdMask bit_EpochMask)
  from fields m1 m2 m3 m4 show ?thesis
    by (simp add: CoreId_take_bit [OF assms(1)] NumId_take_drop EpochId_drop_bit)
qed

text \<open>The largest core, num and epoch ids of the layout with ten core bits.\<close>

theorem MakeTid_round_trip_witness:
  "proto2_macros_ok 10 1024 \<and>
   unat (1023 :: 64 word) < unat (1024 :: 64 word) \<and>
   unat (0x7FFFFFF :: 64 word) < 2 ^ 27 \<and>
   unat (0x7FFFFFF :: 64 word) < 2 ^ (64 - 10 - 27) \<and>
   MakeTid 10 1023 0x7FFFFFF 0x7FFFFFF = 0xFFFFFFFFFFFFFFFF \<and>
   CoreId 1024 (MakeTid 10 1023 0x7FFFFFF 0x7FFFFFF) = 1023 \<and>
   NumId 10 (MakeTid 10 1023 0x7FFFFFF 0x7FFFFFF) = 0x7FFFFFF \<and>
   EpochId 10 (MakeTid 10 1023 0x7FFFFFF 0x7FFFFFF) = 0x7FFFFFF"
proof -
  have ok: "proto2_macros_ok 10 1024"
    by (simp add: macros_ok_iff)
  have a: "unat (1023 :: 64 word) < unat (1024 :: 64 word)" by simp
  have b: "unat (0x7FFFFFF :: 64 word) < 2 ^ 27" by simp
  have c: "unat (0x7FFFFFF :: 64 word) < 2 ^ (64 - 10 - 27)" by simp
  have m: "MakeTid 10 1023 0x7FFFFFF 0x7FFFFFF = 0xFFFFFFFFFFFFFFFF"
    by (simp add: MakeTid_def EpochShift_def NumIdShift_def push_bit_eq_mult)
  from MakeTid_round_trip [OF ok a b c] ok a b c m show ?thesis
    by simp
qed

section \<open>Properties of key ranges\<close>

text \<open>
  Claim C8, as the code has it. For key ranges \<open>R\<close> and \<open>S\<close>, \<^verbatim>\<open>R.contains(S)\<close> holds
  exactly when \<open>R.a \<le> S.a\<close> and (\<open>R\<close> has no upper bound, or \<open>S\<close> has one and
  \<open>R.b \<ge> S.b\<close>); for every key \<open>k\<close>, \<^verbatim>\<open>R.key_in_range(k)\<close> holds exactly when
  \<open>R.a \<le> k\<close> and (\<open>R\<close> has no upper bound or \<open>k < R.b\<close>). So a key equal to the lower
  bound is in the range unless the range is empty (\<^verbatim>\<open>is_empty_range\<close>: it has an
  upper bound \<open>b \<le> a\<close>), and a key equal to the upper bound is not in the range.
\<close>

theorem key_range_contains_key_in_range:
  "contains R S =
     (kr_a R \<le> kr_a S \<and> (\<not> kr_has_b R \<or> (kr_has_b S \<and> kr_b R \<ge> kr_b S))) \<and>
   key_in_range R k =
     (varkey (kr_a R) \<le> k \<and> (\<not> kr_has_b R \<or> k < varkey (kr_b R))) \<and>
   key_in_range R (varkey (kr_a R)) = (\<not> is_empty_range R) \<and>
   \<not> (kr_has_b R \<and> key_in_range R (varkey (kr_b R)))"
  by (auto simp add: contains_def key_in_range_def is_empty_range_def varkey_def)

theorem key_range_contains_key_in_range_witness:
  "contains \<lparr>kr_a = [0x61], kr_has_b = True, kr_b = [0x7A]\<rparr>
            \<lparr>kr_a = [0x62], kr_has_b = True, kr_b = [0x63, 0x64]\<rparr> \<and>
   \<not> contains \<lparr>kr_a = [0x61], kr_has_b = True, kr_b = [0x7A]\<rparr>
              \<lparr>kr_a = [0x62], kr_has_b = False, kr_b = []\<rparr> \<and>
   key_in_range \<lparr>kr_a = [0x61], kr_has_b = True, kr_b = [0x7A]\<rparr> (varkey [0x61]) \<and>
   key_in_range \<lparr>kr_a = [0x61], kr_has_b = True, kr_b = [0x7A]\<rparr> (varkey [0x61, 0x00]) \<and>
   \<not> key_in_range \<lparr>kr_a = [0x61], kr_has_b = True, kr_b = [0x7A]\<rparr> (varkey [0x7A]) \<and>
   key_in_range \<lparr>kr_a = [0x61], kr_has_b = False, kr_b = []\<rparr> (varkey [0x7A])"
  using
    key_range_contains_key_in_range [of "\<lparr>kr_a = [0x61], kr_has_b = True, kr_b = [0x7A]\<rparr>"
      "\<lparr>kr_a = [0x62], kr_has_b = True, kr_b = [0x63, 0x64]\<rparr>" "varkey [0x61]"]
    key_range_contains_key_in_range [of "\<lparr>kr_a = [0x61], kr_has_b = True, kr_b = [0x7A]\<rparr>"
      "\<lparr>kr_a = [0x62], kr_has_b = False, kr_b = []\<rparr>" "varkey [0x61, 0x00]"]
    key_range_contains_key_in_range [of "\<lparr>kr_a = [0x61], kr_has_b = False, kr_b = []\<rparr>"
      "\<lparr>kr_a = [0x62], kr_has_b = False, kr_b = []\<rparr>" "varkey [0x7A]"]
  by (simp add: varkey_def is_empty_range_def)

text \<open>
  A key equal to the lower bound is not in every range: not in the inverted range
  \<open>[b, a)\<close>, and not in the range a default-constructed \<^verbatim>\<open>key_range_t\<close> is (both
  bounds empty, \<^verbatim>\<open>has_b\<close> true), which are empty ranges.
\<close>

theorem key_in_range_lower_bound_of_empty_range:
  "is_empty_range \<lparr>kr_a = [0x62], kr_has_b = True, kr_b = [0x61]\<rparr> \<and>
   \<not> key_in_range \<lparr>kr_a = [0x62], kr_has_b = True, kr_b = [0x61]\<rparr> (varkey [0x62]) \<and>
   is_empty_range \<lparr>kr_a = [], kr_has_b = True, kr_b = []\<rparr> \<and>
   \<not> key_in_range \<lparr>kr_a = [], kr_has_b = True, kr_b = []\<rparr> (varkey [])"
  by (simp add: is_empty_range_def key_in_range_def varkey_def)

end
